theory Spec2Isabelle
  imports Main "HOL-Library.Word"
begin

section \<open>The collection runner of \<open>ui/routes/runner.tsx\<close>\<close>

text \<open>
  The development embeds the execution engine of the collection runner: the registry
  \<open>runnerExecutions\<close> with its five operations, the redirect test of the request loop,
  \<open>getCurIterationUserUploadData\<close>, the iteration/request double loop of
  \<open>runCollectionAction\<close> and its \<open>catch\<close>/\<open>finally\<close> blocks.

  The action is asynchronous. Everything it awaits is answered by an environment
  (\<open>run_env\<close>), and a cancel triggered by the operator can only run while the action is
  suspended at an \<open>await\<close>, so the environment also says at which of the awaits of a
  dispatch \<open>cancelExecution\<close> is called from outside.

  The embedding starts where \<open>testCtx\<close> is created, with the route parameters checked
  and the request body read: \<open>requests\<close> is a list of \<open>RequestType\<close>, \<open>iterations\<close> and
  \<open>delay\<close> are natural numbers, \<open>userUploadEnvs\<close> is a list or no array at all. The
  time of day and the length of the delay have no part in it. A second
  action running at the same time for the same workspace, and a cancel while the action
  waits for the store in the \<open>finally\<close> block, are left out.
\<close>

subsection \<open>Strings\<close>

text \<open>
  A JavaScript string is a sequence of UTF-16 code units, and \<open>===\<close> on strings compares
  these sequences.
\<close>

type_synonym jsstring = "16 word list"

definition utf16 :: "string \<Rightarrow> jsstring" where
  "utf16 cs = map (\<lambda>c. of_nat (of_char c)) cs"

text \<open>
  \<open>String.prototype.trim\<close> removes the code units of WhiteSpace and LineTerminator from
  both ends: TAB, LF, VT, FF, CR, SP, NBSP, U+1680, U+2000 to U+200A, U+2028, U+2029,
  U+202F, U+205F, U+3000 and U+FEFF.
\<close>

definition whiteSpaceUnits :: "16 word list" where
  "whiteSpaceUnits =
     [0x0009, 0x000A, 0x000B, 0x000C, 0x000D, 0x0020, 0x00A0, 0x1680,
      0x2000, 0x2001, 0x2002, 0x2003, 0x2004, 0x2005, 0x2006, 0x2007, 0x2008, 0x2009, 0x200A,
      0x2028, 0x2029, 0x202F, 0x205F, 0x3000, 0xFEFF]"

definition isWhiteSpace :: "16 word \<Rightarrow> bool" where
  "isWhiteSpace c = (c \<in> set whiteSpaceUnits)"

definition trim :: "jsstring \<Rightarrow> jsstring" where
  "trim s = rev (dropWhile isWhiteSpace (rev (dropWhile isWhiteSpace s)))"

subsection \<open>Data model\<close>

text \<open>\<open>RequestType\<close>, declared inside \<open>runCollectionAction\<close>; the field \<open>id\<close> is \<open>id'\<close> here.\<close>

record RequestType =
  name :: jsstring
  id' :: jsstring
  url :: jsstring

text \<open>
  Modelled from the spec: \<open>RequestTestResult\<close> (package insomnia-sdk) is one test
  assertion outcome with a pass/fail status; the runner never looks inside it.
\<close>

record RequestTestResult =
  testCase :: jsstring
  passed :: bool

text \<open>
  Modelled from the spec: \<open>UserUploadEnvironment\<close> (models/environment) is a name with
  an ordered key-value payload; the runner only passes it on.
\<close>

record UserUploadEnvironment =
  envName :: jsstring
  envData :: "(jsstring \<times> jsstring) list"

text \<open>
  The durations are JavaScript numbers that the loop adds up. A number is kept as the bit
  pattern of its IEEE double, and a sum as the sum that is written: the addition of
  doubles is not evaluated, so nothing is said that rounding could make false.
\<close>

datatype jsnumber = Double "64 word" | Plus jsnumber jsnumber

text \<open>\<open>RunnerResultPerRequest\<close> and \<open>ResponseInfo\<close>, as the loop body builds them.\<close>

record RunnerResultPerRequest =
  requestName :: jsstring
  requestUrl :: jsstring
  responseCode :: int
  results :: "RequestTestResult list"

record ResponseInfo =
  responseId :: jsstring
  originalRequestId :: jsstring
  originalRequestName :: jsstring

text \<open>The object \<open>testCtx\<close>; its field \<open>done\<close> is \<open>isDone\<close> here.\<close>

record TestCtx =
  source :: jsstring
  environmentId :: jsstring
  iterations :: nat
  iterationData :: "UserUploadEnvironment list option"
  duration :: jsnumber
  testCount :: int
  avgRespTime :: int
  iterationResults :: "RunnerResultPerRequest list list"
  isDone :: bool
  responsesInfo :: "ResponseInfo list"

text \<open>The record handed to \<open>models.runnerTestResult.create\<close> in the \<open>finally\<close> block.\<close>

record RunnerTestResult =
  parentId :: jsstring
  rSource :: jsstring
  rIterations :: nat
  rDuration :: jsnumber
  rAvgRespTime :: int
  rIterationResults :: "RunnerResultPerRequest list list"
  rResponsesInfo :: "ResponseInfo list"

text \<open>
  A value an awaited collaborator can reject with, as far as the \<open>catch\<close> block looks at
  it: \<open>null\<close> or \<open>undefined\<close>; a string; or any other value, given by its property
  \<open>error\<close> (the string that stands for it, when the property is truthy) and by the string
  that stands for the value itself.
\<close>

datatype thrown = Nullish | Text jsstring | Object "jsstring option" jsstring

text \<open>
  What the loop can throw: the string \<open>'Runner has been stopped'\<close>, the failed
  \<open>invariant\<close> on the request meta, and whatever an awaited collaborator rejects with.
\<close>

datatype failure = Cancelled | RequestMetaMissing | ThirdParty thrown

datatype 'a awaited = Resolved 'a | Rejected thrown

text \<open>
  The step names given to the step tracker. The template string of the loop,
  \<open>Iteration i+1 - Executing j+1 of n requests - "name"\<close>, is kept as its four parts.
\<close>

datatype stepName = Initializing | Done | Executing nat nat nat jsstring

text \<open>The calls that leave the module, in the order they are made.\<close>

datatype event =
    MainStartExecution jsstring
  | AddExecutionStep jsstring stepName
  | UpdateLatestStepName jsstring stepName
  | CompleteExecutionStep jsstring
  | CancelRequestById jsstring
  | UpdateRequestMeta jsstring
  | Sleep nat
  | SendActionImp jsstring jsstring nat nat "UserUploadEnvironment option"
  | CreateRunnerTestResult RunnerTestResult

text \<open>
  The state outside the action's locals: the module-level map \<open>runnerExecutions\<close>, the
  calls made so far, and the records of the result store.
\<close>

record runner_state =
  runnerExecutions :: "jsstring \<rightharpoonup> jsstring"
  trace :: "event list"
  store :: "RunnerTestResult list"

text \<open>
  What the executor leaves behind when \<open>sendActionImp\<close> resolves: the redirect target of
  \<open>mutatedContext?.execution?.nextRequestIdOrName\<close> (\<open>None\<close> when any link of the chain
  is null or undefined) and the three fields of \<open>resultCollector\<close> that the loop reads
  afterwards, as they are when the executor is done with them.
\<close>

record send_result =
  execNextRequestIdOrName :: "jsstring option"
  cResults :: "RequestTestResult list"
  cResponseId :: jsstring
  cDuration :: jsnumber

text \<open>
  The environment of one dispatch: the outcome of the two awaited calls, and whether the
  operator's cancel runs while the action waits for the request meta, for the delay
  timer, or for the executor.
\<close>

record dispatch_env =
  cancelDuringMeta :: bool
  metaResult :: "bool awaited"
  cancelDuringDelay :: bool
  cancelDuringSend :: bool
  sendResult :: "send_result awaited"

record run_env =
  dispatches :: "nat \<Rightarrow> nat \<Rightarrow> dispatch_env"
  createResult :: "unit awaited"

subsection \<open>The execution registry\<close>

definition startExecution :: "jsstring \<Rightarrow> runner_state \<Rightarrow> runner_state" where
  "startExecution workspaceId s = s\<lparr>runnerExecutions := (runnerExecutions s)(workspaceId \<mapsto> [])\<rparr>"

definition stopExecution :: "jsstring \<Rightarrow> runner_state \<Rightarrow> runner_state" where
  "stopExecution workspaceId s = s\<lparr>runnerExecutions := (runnerExecutions s)(workspaceId := None)\<rparr>"

definition updateExecution :: "jsstring \<Rightarrow> jsstring \<Rightarrow> runner_state \<Rightarrow> runner_state" where
  "updateExecution workspaceId requestId s =
     s\<lparr>runnerExecutions := (runnerExecutions s)(workspaceId \<mapsto> requestId)\<rparr>"

definition getExecution :: "jsstring \<Rightarrow> runner_state \<Rightarrow> jsstring option" where
  "getExecution workspaceId s = runnerExecutions s workspaceId"

definition emit :: "event list \<Rightarrow> runner_state \<Rightarrow> runner_state" where
  "emit es s = s\<lparr>trace := trace s @ es\<rparr>"

text \<open>\<open>if (activeRequest)\<close> is false for \<open>undefined\<close> and for the empty string.\<close>

definition cancelExecution :: "jsstring \<Rightarrow> runner_state \<Rightarrow> runner_state" where
  "cancelExecution workspaceId s =
     (case getExecution workspaceId s of
        None \<Rightarrow> s
      | Some activeRequest \<Rightarrow>
          if activeRequest \<noteq> [] then
            stopExecution workspaceId
              (emit [CancelRequestById activeRequest,
                     UpdateLatestStepName workspaceId Done,
                     CompleteExecutionStep workspaceId] s)
          else s)"

subsection \<open>Redirect resolution and data binding\<close>

text \<open>\<open>Array.prototype.findLastIndex\<close>: scan from the last index down, \<open>-1\<close> when none.\<close>

primrec findLastIndexFrom :: "('a \<Rightarrow> bool) \<Rightarrow> 'a list \<Rightarrow> nat \<Rightarrow> int" where
  "findLastIndexFrom P xs 0 = - 1"
| "findLastIndexFrom P xs (Suc k) =
     (if P (xs ! k) then int k else findLastIndexFrom P xs k)"

definition findLastIndex :: "('a \<Rightarrow> bool) \<Rightarrow> 'a list \<Rightarrow> int" where
  "findLastIndex P xs = findLastIndexFrom P xs (length xs)"

text \<open>The condition of the inner \<open>if\<close> under \<open>nextRequestIdOrName !== ''\<close>.\<close>

definition redirectMatches :: "RequestType list \<Rightarrow> nat \<Rightarrow> jsstring \<Rightarrow> bool" where
  "redirectMatches requests j nextRequestIdOrName =
     (let targetRequest = requests ! j in
        id' targetRequest = nextRequestIdOrName \<or>
        (trim (name targetRequest) = trim nextRequestIdOrName \<and>
         int j = findLastIndex (\<lambda>req. trim (name req) = trim nextRequestIdOrName) requests))"

text \<open>\<open>None\<close> for \<open>userUploadEnvs\<close> stands for a value that is not an array.\<close>

definition getCurIterationUserUploadData :: "'a list option \<Rightarrow> nat \<Rightarrow> 'a option" where
  "getCurIterationUserUploadData userUploadEnvs curIteration =
     (case userUploadEnvs of
        None \<Rightarrow> None
      | Some envs \<Rightarrow>
          if length envs > 0 then
            (let uploadDataLength = length envs in
               if uploadDataLength \<ge> curIteration + 1 then Some (envs ! curIteration)
               else Some (envs ! ((curIteration + 1) mod uploadDataLength)))
          else None)"

subsection \<open>One dispatch\<close>

definition cancelIf :: "bool \<Rightarrow> jsstring \<Rightarrow> runner_state \<Rightarrow> runner_state" where
  "cancelIf b workspaceId s = (if b then cancelExecution workspaceId s else s)"

text \<open>
  The loop body from \<open>updateExecution\<close> to the update of \<open>testCtx\<close>, for the request at
  index \<open>j\<close> of iteration \<open>i\<close>. It is entered with \<open>nextRequestIdOrName = ''\<close>, so the
  redirect target it returns is the executor's when that is a non-empty string, and
  \<open>''\<close> otherwise.
\<close>

definition executeRequest ::
  "run_env \<Rightarrow> jsstring \<Rightarrow> RequestType list \<Rightarrow> nat \<Rightarrow> nat \<Rightarrow> UserUploadEnvironment list option \<Rightarrow>
   nat \<Rightarrow> nat \<Rightarrow> TestCtx \<Rightarrow> runner_state \<Rightarrow>
   (failure + jsstring \<times> RunnerResultPerRequest \<times> TestCtx) \<times> runner_state" where
  "executeRequest E workspaceId requests iters delay userUploadEnvs i j testCtx s =
     (let targetRequest = requests ! j;
          d = dispatches E i j;
          s1 = updateExecution workspaceId (id' targetRequest) s;
          s2 = emit [UpdateLatestStepName workspaceId
                       (Executing (i + 1) (j + 1) (length requests) (name targetRequest)),
                     UpdateRequestMeta (id' targetRequest)] s1;
          s3 = cancelIf (cancelDuringMeta d) workspaceId s2
      in case metaResult d of
           Rejected m \<Rightarrow> (Inl (ThirdParty m), s3)
         | Resolved False \<Rightarrow> (Inl RequestMetaMissing, s3)
         | Resolved True \<Rightarrow>
             (let s4 = cancelIf (cancelDuringDelay d) workspaceId (emit [Sleep delay] s3);
                  s5 = emit [SendActionImp (id' targetRequest) workspaceId (i + 1) iters
                               (getCurIterationUserUploadData userUploadEnvs i)] s4;
                  s6 = cancelIf (cancelDuringSend d) workspaceId s5
              in case sendResult d of
                   Rejected m \<Rightarrow> (Inl (ThirdParty m), s6)
                 | Resolved r \<Rightarrow>
                     (let nextRequestIdOrName =
                            (case execNextRequestIdOrName r of
                               None \<Rightarrow> []
                             | Some t \<Rightarrow> t);
                          requestResults =
                            \<lparr>requestName = name targetRequest,
                             requestUrl = url targetRequest,
                             responseCode = 0,
                             results = cResults r\<rparr>;
                          testCtx' = testCtx
                            \<lparr>duration := Plus (duration testCtx) (cDuration r),
                             responsesInfo := responsesInfo testCtx @
                               [\<lparr>responseId = cResponseId r,
                                 originalRequestId = id' targetRequest,
                                 originalRequestName = name targetRequest\<rparr>]\<rparr>
                      in (Inr (nextRequestIdOrName, requestResults, testCtx'), s6))))"

subsection \<open>The loops\<close>

text \<open>
  The inner \<open>for\<close> loop from index \<open>j\<close> on, with the locals \<open>nextRequestIdOrName\<close> and
  \<open>iterationResults\<close>. A \<open>throw\<close> leaves the loop with the \<open>testCtx\<close> of that moment; the
  local \<open>iterationResults\<close> is then out of reach.
\<close>

function run_requests ::
  "run_env \<Rightarrow> jsstring \<Rightarrow> RequestType list \<Rightarrow> nat \<Rightarrow> nat \<Rightarrow> UserUploadEnvironment list option \<Rightarrow>
   nat \<Rightarrow> nat \<Rightarrow> jsstring \<Rightarrow> RunnerResultPerRequest list \<Rightarrow> TestCtx \<Rightarrow> runner_state \<Rightarrow>
   (failure + RunnerResultPerRequest list) \<times> TestCtx \<times> runner_state" where
  "run_requests E workspaceId requests iters delay userUploadEnvs i j nextRequestIdOrName
      iterationResults' testCtx s =
     (if j < length requests then
        (case getExecution workspaceId s of
           None \<Rightarrow> (Inl Cancelled, testCtx, s)
         | Some _ \<Rightarrow>
             if nextRequestIdOrName \<noteq> [] \<and> \<not> redirectMatches requests j nextRequestIdOrName
             then run_requests E workspaceId requests iters delay userUploadEnvs i (Suc j)
                    nextRequestIdOrName iterationResults' testCtx s
             else
               (case executeRequest E workspaceId requests iters delay userUploadEnvs i j testCtx s of
                  (Inl e, s') \<Rightarrow> (Inl e, testCtx, s')
                | (Inr (next', requestResults, testCtx'), s') \<Rightarrow>
                    run_requests E workspaceId requests iters delay userUploadEnvs i (Suc j)
                      next' (iterationResults' @ [requestResults]) testCtx' s'))
      else (Inr iterationResults', testCtx, s))"
  by pat_completeness auto
termination
  by (relation "measure (\<lambda>(E, w, requests, n, d, u, i, j, r). length requests - j)") auto

text \<open>The outer \<open>for\<close> loop from iteration \<open>i\<close> on.\<close>

function run_iterations ::
  "run_env \<Rightarrow> jsstring \<Rightarrow> RequestType list \<Rightarrow> nat \<Rightarrow> nat \<Rightarrow> UserUploadEnvironment list option \<Rightarrow>
   nat \<Rightarrow> TestCtx \<Rightarrow> runner_state \<Rightarrow> (failure + unit) \<times> TestCtx \<times> runner_state" where
  "run_iterations E workspaceId requests iters delay userUploadEnvs i testCtx s =
     (if i < iters then
        (case run_requests E workspaceId requests iters delay userUploadEnvs i 0 [] [] testCtx s of
           (Inl e, testCtx', s') \<Rightarrow> (Inl e, testCtx', s')
         | (Inr iterationResults', testCtx', s') \<Rightarrow>
             run_iterations E workspaceId requests iters delay userUploadEnvs (Suc i)
               (testCtx'\<lparr>iterationResults := iterationResults testCtx' @ [iterationResults']\<rparr>) s')
      else (Inr (), testCtx, s))"
  by pat_completeness auto
termination
  by (relation "measure (\<lambda>(E, w, requests, n, d, u, i, r). n - i)") auto

subsection \<open>The action\<close>

text \<open>
  The action returns a redirect to the runner view, with the \<open>error\<close> query parameter
  when it comes from the \<open>catch\<close> block, or it throws: a \<open>TypeError\<close> or a \<open>URIError\<close> out
  of the \<open>catch\<close> block, or what the store rejects with. The query parameter is kept as
  the failure it is computed from.
\<close>

datatype response = Redirect "failure option"

datatype escaped = TypeError | URIError | StoreRejected thrown

datatype outcome = Returned response | Thrown escaped

text \<open>
  \<open>encodeURIComponent\<close> throws a \<open>URIError\<close> on a string with a lone surrogate: a code
  unit from D800 to DBFF that is not followed by one from DC00 to DFFF, or one from DC00
  to DFFF that does not follow one from D800 to DBFF.
\<close>

definition isHighSurrogate :: "16 word \<Rightarrow> bool" where
  "isHighSurrogate c = (0xD800 \<le> c \<and> c \<le> 0xDBFF)"

definition isLowSurrogate :: "16 word \<Rightarrow> bool" where
  "isLowSurrogate c = (0xDC00 \<le> c \<and> c \<le> 0xDFFF)"

fun wellFormed :: "jsstring \<Rightarrow> bool" where
  "wellFormed [] = True"
| "wellFormed [c] = (\<not> isHighSurrogate c \<and> \<not> isLowSurrogate c)"
| "wellFormed (c # c' # cs) =
     (if isHighSurrogate c then isLowSurrogate c' \<and> wellFormed cs
      else \<not> isLowSurrogate c \<and> wellFormed (c' # cs))"

text \<open>The string that \<open>e.error || e\<close> gives to \<open>encodeURIComponent\<close> for a rejection.\<close>

fun errorText :: "thrown \<Rightarrow> jsstring" where
  "errorText Nullish = []"
| "errorText (Text t) = t"
| "errorText (Object (Some v) t) = v"
| "errorText (Object None t) = t"

text \<open>
  Line 878, \<open>encodeURIComponent(e.error || e)\<close>: reading \<open>e.error\<close> throws a \<open>TypeError\<close>
  when \<open>e\<close> is \<open>null\<close> or \<open>undefined\<close>, and the encoding throws on a lone surrogate.
  Modelled from the spec: \<open>utils/invariant\<close> is not among the sources; the failed
  precondition is an \<open>Error\<close> whose text is made of string literals, as the string
  \<open>'Runner has been stopped'\<close> is, so both are encoded.
\<close>

definition errMsg :: "failure \<Rightarrow> escaped + failure" where
  "errMsg e =
     (case e of
        Cancelled \<Rightarrow> Inr e
      | RequestMetaMissing \<Rightarrow> Inr e
      | ThirdParty x \<Rightarrow>
          (case x of
             Nullish \<Rightarrow> Inl TypeError
           | _ \<Rightarrow> if wellFormed (errorText x) then Inr e else Inl URIError))"

definition initialTestCtx :: "nat \<Rightarrow> UserUploadEnvironment list option \<Rightarrow> TestCtx" where
  "initialTestCtx iters userUploadEnvs =
     \<lparr>source = utf16 ''runner'',
      environmentId = [],
      iterations = iters,
      iterationData = userUploadEnvs,
      duration = Double 0x3FF0000000000000,
      testCount = 0,
      avgRespTime = 0,
      iterationResults = [],
      isDone = False,
      responsesInfo = []\<rparr>"

text \<open>Lines 761 to 766: the two calls to the main process and \<open>startExecution\<close>.\<close>

definition beginRun :: "jsstring \<Rightarrow> runner_state \<Rightarrow> runner_state" where
  "beginRun workspaceId s =
     startExecution workspaceId
       (emit [MainStartExecution workspaceId, AddExecutionStep workspaceId Initializing] s)"

definition toRunnerTestResult :: "jsstring \<Rightarrow> TestCtx \<Rightarrow> RunnerTestResult" where
  "toRunnerTestResult workspaceId testCtx =
     \<lparr>parentId = workspaceId,
      rSource = source testCtx,
      rIterations = iterations testCtx,
      rDuration = duration testCtx,
      rAvgRespTime = avgRespTime testCtx,
      rIterationResults = iterationResults testCtx,
      rResponsesInfo = responsesInfo testCtx\<rparr>"

text \<open>
  The \<open>finally\<close> block: it awaits the store's \<open>create\<close>. When that rejects, the rejection
  replaces the pending completion of the \<open>try\<close> statement.
\<close>

definition finallyBlock ::
  "run_env \<Rightarrow> jsstring \<Rightarrow> TestCtx \<Rightarrow> outcome \<Rightarrow> runner_state \<Rightarrow> outcome \<times> runner_state" where
  "finallyBlock E workspaceId testCtx pending s =
     (let record = toRunnerTestResult workspaceId testCtx;
          s1 = emit [CreateRunnerTestResult record] s
      in case createResult E of
           Rejected m \<Rightarrow> (Thrown (StoreRejected m), s1)
         | Resolved _ \<Rightarrow> (pending, s1\<lparr>store := store s1 @ [record]\<rparr>))"

text \<open>
  The \<open>try\<close> statement around the loops. After a normal end of the loops the two step
  calls are made; after a \<open>throw\<close> the \<open>catch\<close> block calls \<open>cancelExecution\<close>, computes
  \<open>errMsg\<close> and returns the error redirect, unless \<open>errMsg\<close> throws. All ways pass
  through the \<open>finally\<close> block.
\<close>

definition finishRun ::
  "run_env \<Rightarrow> jsstring \<Rightarrow> (failure + unit) \<times> TestCtx \<times> runner_state \<Rightarrow> outcome \<times> runner_state" where
  "finishRun E workspaceId r =
     (case r of
        (Inr _, testCtx, s) \<Rightarrow>
          finallyBlock E workspaceId testCtx (Returned (Redirect None))
            (emit [UpdateLatestStepName workspaceId Done, CompleteExecutionStep workspaceId] s)
      | (Inl e, testCtx, s) \<Rightarrow>
          finallyBlock E workspaceId testCtx
            (case errMsg e of
               Inl x \<Rightarrow> Thrown x
             | Inr m \<Rightarrow> Returned (Redirect (Some m)))
            (cancelExecution workspaceId s))"

definition runCollectionAction ::
  "run_env \<Rightarrow> jsstring \<Rightarrow> RequestType list \<Rightarrow> nat \<Rightarrow> nat \<Rightarrow> UserUploadEnvironment list option \<Rightarrow>
   runner_state \<Rightarrow> outcome \<times> runner_state" where
  "runCollectionAction E workspaceId requests iters delay userUploadEnvs s =
     finishRun E workspaceId
       (run_iterations E workspaceId requests iters delay userUploadEnvs 0
          (initialTestCtx iters userUploadEnvs) (beginRun workspaceId s))"

subsection \<open>The points a run passes\<close>

text \<open>
  A configuration is a point at the head of the inner loop, before the test
  \<open>j < requests.length\<close>: the two loop counters, the locals \<open>nextRequestIdOrName\<close> and
  \<open>iterationResults\<close>, \<open>testCtx\<close> and the state. A run that has an iteration to make
  starts at the head of the inner loop of iteration 0. From a configuration with a request
  left and the registry entry present, the loop goes to the next index, past a candidate
  that does not match a pending redirect or through a dispatch that completes. From the
  end of the list it goes to the next iteration, when there is one, with the results of
  the iteration appended to \<open>testCtx\<close>.
\<close>

type_synonym config =
  "nat \<times> nat \<times> jsstring \<times> RunnerResultPerRequest list \<times> TestCtx \<times> runner_state"

inductive reaches ::
  "run_env \<Rightarrow> jsstring \<Rightarrow> RequestType list \<Rightarrow> nat \<Rightarrow> nat \<Rightarrow> UserUploadEnvironment list option \<Rightarrow>
   runner_state \<Rightarrow> config \<Rightarrow> bool"
  for E workspaceId requests iters delay userUploadEnvs s0
where
  start:
    "0 < iters \<Longrightarrow>
     reaches E workspaceId requests iters delay userUploadEnvs s0
       (0, 0, [], [], initialTestCtx iters userUploadEnvs, beginRun workspaceId s0)"
| skip:
    "reaches E workspaceId requests iters delay userUploadEnvs s0
       (i, j, nextRequestIdOrName, iterationResults', testCtx, s) \<Longrightarrow>
     j < length requests \<Longrightarrow>
     getExecution workspaceId s \<noteq> None \<Longrightarrow>
     nextRequestIdOrName \<noteq> [] \<Longrightarrow>
     \<not> redirectMatches requests j nextRequestIdOrName \<Longrightarrow>
     reaches E workspaceId requests iters delay userUploadEnvs s0
       (i, Suc j, nextRequestIdOrName, iterationResults', testCtx, s)"
| dispatch:
    "reaches E workspaceId requests iters delay userUploadEnvs s0
       (i, j, nextRequestIdOrName, iterationResults', testCtx, s) \<Longrightarrow>
     j < length requests \<Longrightarrow>
     getExecution workspaceId s \<noteq> None \<Longrightarrow>
     nextRequestIdOrName = [] \<or> redirectMatches requests j nextRequestIdOrName \<Longrightarrow>
     executeRequest E workspaceId requests iters delay userUploadEnvs i j testCtx s =
       (Inr (next', requestResults, testCtx'), s') \<Longrightarrow>
     reaches E workspaceId requests iters delay userUploadEnvs s0
       (i, Suc j, next', iterationResults' @ [requestResults], testCtx', s')"
| nextIteration:
    "reaches E workspaceId requests iters delay userUploadEnvs s0
       (i, j, nextRequestIdOrName, iterationResults', testCtx, s) \<Longrightarrow>
     \<not> j < length requests \<Longrightarrow>
     Suc i < iters \<Longrightarrow>
     reaches E workspaceId requests iters delay userUploadEnvs s0
       (Suc i, 0, [], [],
        testCtx\<lparr>iterationResults := iterationResults testCtx @ [iterationResults']\<rparr>, s)"

text \<open>What remains of the two loops from a configuration.\<close>

definition restOfLoops ::
  "run_env \<Rightarrow> jsstring \<Rightarrow> RequestType list \<Rightarrow> nat \<Rightarrow> nat \<Rightarrow> UserUploadEnvironment list option \<Rightarrow>
   config \<Rightarrow> (failure + unit) \<times> TestCtx \<times> runner_state" where
  "restOfLoops E workspaceId requests iters delay userUploadEnvs c =
     (case c of (i, j, nextRequestIdOrName, iterationResults', testCtx, s) \<Rightarrow>
        (case run_requests E workspaceId requests iters delay userUploadEnvs i j
                nextRequestIdOrName iterationResults' testCtx s of
           (Inl e, testCtx', s') \<Rightarrow> (Inl e, testCtx', s')
         | (Inr iterationResults'', testCtx', s') \<Rightarrow>
             run_iterations E workspaceId requests iters delay userUploadEnvs (Suc i)
               (testCtx'\<lparr>iterationResults := iterationResults testCtx' @ [iterationResults'']\<rparr>)
               s'))"

subsection \<open>Vocabulary of the properties\<close>

text \<open>
  A dispatch is quiet when the operator does not cancel during it, the request meta is
  found, the executor resolves, and the executor names no redirect target.
\<close>

definition noCancel :: "dispatch_env \<Rightarrow> bool" where
  "noCancel d = (\<not> cancelDuringMeta d \<and> \<not> cancelDuringDelay d \<and> \<not> cancelDuringSend d)"

definition succeeds :: "dispatch_env \<Rightarrow> bool" where
  "succeeds d =
     (metaResult d = Resolved True \<and>
      (case sendResult d of Resolved r \<Rightarrow> True | Rejected m \<Rightarrow> False))"

definition signalsRedirect :: "dispatch_env \<Rightarrow> bool" where
  "signalsRedirect d =
     (case sendResult d of
        Resolved r \<Rightarrow> (case execNextRequestIdOrName r of None \<Rightarrow> False | Some t \<Rightarrow> t \<noteq> [])
      | Rejected m \<Rightarrow> False)"

definition quiet :: "dispatch_env \<Rightarrow> bool" where
  "quiet d = (noCancel d \<and> succeeds d \<and> \<not> signalsRedirect d)"

definition collected :: "run_env \<Rightarrow> nat \<Rightarrow> nat \<Rightarrow> RequestTestResult list" where
  "collected E i j =
     (case sendResult (dispatches E i j) of Resolved r \<Rightarrow> cResults r | Rejected m \<Rightarrow> [])"

definition requestResultsOf :: "run_env \<Rightarrow> RequestType list \<Rightarrow> nat \<Rightarrow> nat \<Rightarrow> RunnerResultPerRequest" where
  "requestResultsOf E requests i j =
     \<lparr>requestName = name (requests ! j), requestUrl = url (requests ! j),
      responseCode = 0, results = collected E i j\<rparr>"

text \<open>
  The records handed to the store's \<open>create\<close> and the calls of the executor (request id
  and iteration number), read off a trace in the order they were made.
\<close>

primrec createCalls :: "event list \<Rightarrow> RunnerTestResult list" where
  "createCalls [] = []"
| "createCalls (e # es) =
     (case e of CreateRunnerTestResult r \<Rightarrow> r # createCalls es | _ \<Rightarrow> createCalls es)"

primrec sendCalls :: "event list \<Rightarrow> (jsstring \<times> nat) list" where
  "sendCalls [] = []"
| "sendCalls (e # es) =
     (case e of SendActionImp r w i n u \<Rightarrow> (r, i) # sendCalls es | _ \<Rightarrow> sendCalls es)"

text \<open>The record of the last call of the store's \<open>create\<close>.\<close>

definition lastCreated :: "runner_state \<Rightarrow> RunnerTestResult" where
  "lastCreated s = last (createCalls (trace s))"

text \<open>The executor calls for the requests at the indices \<open>js\<close> in iteration \<open>i\<close>.\<close>

definition sendCallsOf :: "RequestType list \<Rightarrow> nat \<Rightarrow> nat list \<Rightarrow> (jsstring \<times> nat) list" where
  "sendCallsOf requests i js = map (\<lambda>j. (id' (requests ! j), i + 1)) js"

text \<open>The \<open>testCtx\<close> the loops of a run have accumulated when they end or throw.\<close>

definition accumulatedTestCtx ::
  "run_env \<Rightarrow> jsstring \<Rightarrow> RequestType list \<Rightarrow> nat \<Rightarrow> nat \<Rightarrow> UserUploadEnvironment list option \<Rightarrow>
   runner_state \<Rightarrow> TestCtx" where
  "accumulatedTestCtx E workspaceId requests iters delay userUploadEnvs s =
     fst (snd (run_iterations E workspaceId requests iters delay userUploadEnvs 0
       (initialTestCtx iters userUploadEnvs) (beginRun workspaceId s)))"

subsection \<open>Example inputs\<close>

text \<open>
  The inputs on which the theorems below are instantiated: a workspace, a state with an
  empty registry, an executor answer without a redirect target, and the request lists of
  the spec's examples.
\<close>

definition exampleWorkspace :: jsstring where
  "exampleWorkspace = utf16 ''wrk_1''"

definition emptyState :: runner_state where
  "emptyState = \<lparr>runnerExecutions = Map.empty, trace = [], store = []\<rparr>"

definition plainSendResult :: send_result where
  "plainSendResult =
     \<lparr>execNextRequestIdOrName = None,
      cResults = [\<lparr>testCase = utf16 ''status is 200'', passed = True\<rparr>],
      cResponseId = utf16 ''res_1'',
      cDuration = Double 0x4014000000000000\<rparr>"

definition quietDispatch :: dispatch_env where
  "quietDispatch =
     \<lparr>cancelDuringMeta = False, metaResult = Resolved True, cancelDuringDelay = False,
      cancelDuringSend = False, sendResult = Resolved plainSendResult\<rparr>"

definition quietEnv :: run_env where
  "quietEnv = \<lparr>dispatches = (\<lambda>i j. quietDispatch), createResult = Resolved ()\<rparr>"

definition request :: "string \<Rightarrow> string \<Rightarrow> RequestType" where
  "request i n = \<lparr>name = utf16 n, id' = utf16 i, url = utf16 ''https://example.test''\<rparr>"

definition twoRequests :: "RequestType list" where
  "twoRequests = [request ''r1'' ''Req1'', request ''r2'' ''Req2'']"

definition threeRequests :: "RequestType list" where
  "threeRequests = [request ''r1'' ''Req1'', request ''r2'' ''Req2'', request ''r3'' ''Req3'']"

definition requestsABA :: "RequestType list" where
  "requestsABA = [request ''r1'' ''A'', request ''r2'' ''B'', request ''r3'' ''A'']"

text \<open>
  An environment in which the operator cancels while the first request of the first
  iteration is with the executor, which still resolves; one in which the first request
  names a redirect target; and a request list in which the name of the second request is
  the id of the third.
\<close>

definition cancelEnv :: run_env where
  "cancelEnv =
     \<lparr>dispatches = (\<lambda>i j. if i = 0 \<and> j = 0 then quietDispatch\<lparr>cancelDuringSend := True\<rparr>
                             else quietDispatch),
      createResult = Resolved ()\<rparr>"

definition redirectEnv :: "string \<Rightarrow> run_env" where
  "redirectEnv t =
     \<lparr>dispatches = (\<lambda>i j. if j = 0
        then quietDispatch\<lparr>sendResult :=
               Resolved (plainSendResult\<lparr>execNextRequestIdOrName := Some (utf16 t)\<rparr>)\<rparr>
        else quietDispatch),
      createResult = Resolved ()\<rparr>"

text \<open>
  Environments in which the second request of the first iteration fails: its request
  meta is not found, or the executor rejects with a given value. One in which the
  operator cancels during the last request of the first iteration. One in which the
  store rejects the record after such a cancel.
\<close>

definition metaMissingEnv :: run_env where
  "metaMissingEnv =
     \<lparr>dispatches = (\<lambda>i j. if i = 0 \<and> j = 1 then quietDispatch\<lparr>metaResult := Resolved False\<rparr>
                             else quietDispatch),
      createResult = Resolved ()\<rparr>"

definition rejectingEnv :: "thrown \<Rightarrow> run_env" where
  "rejectingEnv x =
     \<lparr>dispatches = (\<lambda>i j. if i = 0 \<and> j = 1 then quietDispatch\<lparr>sendResult := Rejected x\<rparr>
                             else quietDispatch),
      createResult = Resolved ()\<rparr>"

definition cancelLastEnv :: run_env where
  "cancelLastEnv =
     \<lparr>dispatches = (\<lambda>i j. if i = 0 \<and> j = 1 then quietDispatch\<lparr>cancelDuringSend := True\<rparr>
                             else quietDispatch),
      createResult = Resolved ()\<rparr>"

definition storeRejectsEnv :: run_env where
  "storeRejectsEnv = cancelEnv\<lparr>createResult := Rejected (Text (utf16 ''disk full''))\<rparr>"

text \<open>
  The operator cancels during the first dispatch of the first iteration, and that dispatch
  names the third request as the redirect target.
\<close>

definition cancelRedirectEnv :: run_env where
  "cancelRedirectEnv =
     \<lparr>dispatches = (\<lambda>i j. if i = 0 \<and> j = 0
        then quietDispatch\<lparr>cancelDuringSend := True, sendResult :=
               Resolved (plainSendResult\<lparr>execNextRequestIdOrName := Some (utf16 ''r3'')\<rparr>)\<rparr>
        else quietDispatch),
      createResult = Resolved ()\<rparr>"

definition requestsNameClash :: "RequestType list" where
  "requestsNameClash = [request ''a'' ''X'', request ''b'' ''c'', request ''c'' ''Z'']"

section \<open>Properties\<close>

declare run_requests.simps [simp del]
declare run_iterations.simps [simp del]

subsection \<open>Single steps of the loops\<close>

lemma createCalls_append: "createCalls (xs @ ys) = createCalls xs @ createCalls ys"
  by (induction xs) (auto split: event.splits)

lemma sendCalls_append: "sendCalls (xs @ ys) = sendCalls xs @ sendCalls ys"
  by (induction xs) (auto split: event.splits)

lemma store_emit: "store (emit es s) = store s"
  by (simp add: emit_def)

lemma store_cancelExecution: "store (cancelExecution w s) = store s"
  by (simp add: cancelExecution_def stopExecution_def emit_def split: option.splits)

lemma store_cancelIf: "store (cancelIf b w s) = store s"
  by (simp add: cancelIf_def store_cancelExecution)

lemma store_updateExecution: "store (updateExecution w r s) = store s"
  by (simp add: updateExecution_def)

lemma store_executeRequest:
  "store (snd (executeRequest E w rs n d u i j ctx s)) = store s"
  by (simp add: executeRequest_def Let_def store_emit store_cancelIf store_updateExecution
      split: awaited.splits bool.splits)

lemma executeRequest_Inr_ctx:
  assumes "executeRequest E w rs n d u i j ctx s = (Inr (t, res, ctx'), s')"
  shows "iterationResults ctx' = iterationResults ctx"
    and "length (responsesInfo ctx') = Suc (length (responsesInfo ctx))"
  using assms
  by (auto simp: executeRequest_def Let_def split: awaited.splits bool.splits)

lemma run_requests_done:
  "\<not> j < length rs \<Longrightarrow> run_requests E w rs n d u i j nxt acc ctx s = (Inr acc, ctx, s)"
  by (subst run_requests.simps) simp

lemma run_requests_stopped:
  "j < length rs \<Longrightarrow> getExecution w s = None \<Longrightarrow>
   run_requests E w rs n d u i j nxt acc ctx s = (Inl Cancelled, ctx, s)"
  by (subst run_requests.simps) simp

lemma run_requests_skip:
  "j < length rs \<Longrightarrow> getExecution w s \<noteq> None \<Longrightarrow> nxt \<noteq> [] \<Longrightarrow> \<not> redirectMatches rs j nxt \<Longrightarrow>
   run_requests E w rs n d u i j nxt acc ctx s =
   run_requests E w rs n d u i (Suc j) nxt acc ctx s"
  by (subst run_requests.simps) auto

lemma run_requests_execute:
  "j < length rs \<Longrightarrow> getExecution w s \<noteq> None \<Longrightarrow> nxt = [] \<or> redirectMatches rs j nxt \<Longrightarrow>
   executeRequest E w rs n d u i j ctx s = (Inr (t, res, ctx'), s') \<Longrightarrow>
   run_requests E w rs n d u i j nxt acc ctx s =
   run_requests E w rs n d u i (Suc j) t (acc @ [res]) ctx' s'"
  by (subst run_requests.simps) auto

lemma run_requests_fail:
  "j < length rs \<Longrightarrow> getExecution w s \<noteq> None \<Longrightarrow> nxt = [] \<or> redirectMatches rs j nxt \<Longrightarrow>
   executeRequest E w rs n d u i j ctx s = (Inl e, s') \<Longrightarrow>
   run_requests E w rs n d u i j nxt acc ctx s = (Inl e, ctx, s')"
  by (subst run_requests.simps) auto

lemma run_iterations_done:
  "\<not> i < n \<Longrightarrow> run_iterations E w rs n d u i ctx s = (Inr (), ctx, s)"
  by (subst run_iterations.simps) simp

lemma run_iterations_fail:
  "i < n \<Longrightarrow> run_requests E w rs n d u i 0 [] [] ctx s = (Inl e, ctx', s') \<Longrightarrow>
   run_iterations E w rs n d u i ctx s = (Inl e, ctx', s')"
  by (subst run_iterations.simps) simp

lemma run_iterations_next:
  "i < n \<Longrightarrow> run_requests E w rs n d u i 0 [] [] ctx s = (Inr res, ctx', s') \<Longrightarrow>
   run_iterations E w rs n d u i ctx s =
   run_iterations E w rs n d u (Suc i)
     (ctx'\<lparr>iterationResults := iterationResults ctx' @ [res]\<rparr>) s'"
  by (subst run_iterations.simps) simp

text \<open>
  An induction rule that follows the five ways through the body of the inner loop: the
  end of the list, the failed liveness check, a skipped candidate, a failed dispatch and
  a completed dispatch.
\<close>

lemma run_requests_rule:
  assumes atEnd: "\<And>j nxt acc ctx s. \<not> j < length rs \<Longrightarrow> P j nxt acc ctx s (Inr acc, ctx, s)"
    and stopped: "\<And>j nxt acc ctx s. j < length rs \<Longrightarrow> getExecution w s = None \<Longrightarrow>
          P j nxt acc ctx s (Inl Cancelled, ctx, s)"
    and skip: "\<And>j nxt acc ctx s. j < length rs \<Longrightarrow> getExecution w s \<noteq> None \<Longrightarrow>
          nxt \<noteq> [] \<Longrightarrow> \<not> redirectMatches rs j nxt \<Longrightarrow>
          P (Suc j) nxt acc ctx s (run_requests E w rs n d u i (Suc j) nxt acc ctx s) \<Longrightarrow>
          P j nxt acc ctx s (run_requests E w rs n d u i (Suc j) nxt acc ctx s)"
    and fail: "\<And>j nxt acc ctx s e s'. j < length rs \<Longrightarrow> getExecution w s \<noteq> None \<Longrightarrow>
          nxt = [] \<or> redirectMatches rs j nxt \<Longrightarrow>
          executeRequest E w rs n d u i j ctx s = (Inl e, s') \<Longrightarrow>
          P j nxt acc ctx s (Inl e, ctx, s')"
    and exec: "\<And>j nxt acc ctx s t res ctx' s'. j < length rs \<Longrightarrow> getExecution w s \<noteq> None \<Longrightarrow>
          nxt = [] \<or> redirectMatches rs j nxt \<Longrightarrow>
          executeRequest E w rs n d u i j ctx s = (Inr (t, res, ctx'), s') \<Longrightarrow>
          P (Suc j) t (acc @ [res]) ctx' s'
            (run_requests E w rs n d u i (Suc j) t (acc @ [res]) ctx' s') \<Longrightarrow>
          P j nxt acc ctx s (run_requests E w rs n d u i (Suc j) t (acc @ [res]) ctx' s')"
  shows "P j nxt acc ctx s (run_requests E w rs n d u i j nxt acc ctx s)"
proof (induction "length rs - j" arbitrary: j nxt acc ctx s)
  case 0
  then show ?case using atEnd by (simp add: run_requests_done)
next
  case (Suc k)
  then have j: "j < length rs" and k: "k = length rs - Suc j" by auto
  show ?case
  proof (cases "getExecution w s")
    case None
    then show ?thesis using j stopped by (simp add: run_requests_stopped)
  next
    case (Some v)
    then have live: "getExecution w s \<noteq> None" by simp
    show ?thesis
    proof (cases "nxt \<noteq> [] \<and> \<not> redirectMatches rs j nxt")
      case True
      then show ?thesis
        using run_requests_skip [OF j live, of nxt E n d u i acc ctx]
          skip [OF j live _ _ Suc.hyps(1) [OF k]] by simp
    next
      case False
      then have m: "nxt = [] \<or> redirectMatches rs j nxt" by auto
      obtain r s' where ex: "executeRequest E w rs n d u i j ctx s = (r, s')"
        by (cases "executeRequest E w rs n d u i j ctx s")
      show ?thesis
      proof (cases r)
        case (Inl e)
        then have e: "executeRequest E w rs n d u i j ctx s = (Inl e, s')"
          using ex by simp
        show ?thesis
          using run_requests_fail [OF j live m e, of acc] fail [OF j live m e] by simp
      next
        case (Inr p)
        obtain t res ctx' where p: "p = (t, res, ctx')" by (cases p)
        have e: "executeRequest E w rs n d u i j ctx s = (Inr (t, res, ctx'), s')"
          using ex Inr p by simp
        show ?thesis
          using run_requests_execute [OF j live m e, of acc]
            exec [OF j live m e Suc.hyps(1) [OF k]] by simp
      qed
    qed
  qed
qed

text \<open>
  What the loops leave alone, whatever the environment does: the \<open>iterationResults\<close> of
  \<open>testCtx\<close> inside an iteration, and every part of the state that a dispatch leaves alone.
\<close>

lemma run_requests_preserves:
  assumes "\<And>j ctx s. f (snd (executeRequest E w rs n d u i j ctx s)) = f s"
  shows "f (snd (snd (run_requests E w rs n d u i j nxt acc ctx s))) = f s \<and>
         iterationResults (fst (snd (run_requests E w rs n d u i j nxt acc ctx s))) =
           iterationResults ctx"
proof (rule run_requests_rule
    [where P = "\<lambda>j nxt acc ctx s r. f (snd (snd r)) = f s \<and>
                  iterationResults (fst (snd r)) = iterationResults ctx"])
  fix j nxt acc ctx s e s'
  assume "executeRequest E w rs n d u i j ctx s = (Inl e, s')"
  then show "f (snd (snd (Inl e :: failure + RunnerResultPerRequest list, ctx, s'))) = f s \<and>
        iterationResults (fst (snd (Inl e :: failure + RunnerResultPerRequest list, ctx, s'))) =
          iterationResults ctx"
    using assms [of j ctx s] by simp
next
  fix j nxt acc ctx s t res ctx' s'
  assume e: "executeRequest E w rs n d u i j ctx s = (Inr (t, res, ctx'), s')"
    and ih: "f (snd (snd (run_requests E w rs n d u i (Suc j) t (acc @ [res]) ctx' s'))) = f s' \<and>
        iterationResults (fst (snd (run_requests E w rs n d u i (Suc j) t (acc @ [res]) ctx' s'))) =
          iterationResults ctx'"
  show "f (snd (snd (run_requests E w rs n d u i (Suc j) t (acc @ [res]) ctx' s'))) = f s \<and>
        iterationResults (fst (snd (run_requests E w rs n d u i (Suc j) t (acc @ [res]) ctx' s'))) =
          iterationResults ctx"
    using ih assms [of j ctx s] e executeRequest_Inr_ctx(1) [OF e] by simp
qed simp_all

lemma run_iterations_preserves:
  assumes "\<And>i j ctx s. f (snd (executeRequest E w rs n d u i j ctx s)) = f s"
  shows "f (snd (snd (run_iterations E w rs n d u i ctx s))) = f s"
proof (induction "n - i" arbitrary: i ctx s)
  case 0
  then show ?case by (simp add: run_iterations_done)
next
  case (Suc k)
  then have i: "i < n" and k: "k = n - Suc i" by auto
  obtain r ctx' s' where inner: "run_requests E w rs n d u i 0 [] [] ctx s = (r, ctx', s')"
    by (cases "run_requests E w rs n d u i 0 [] [] ctx s")
  have st: "f s' = f s"
    using run_requests_preserves [where f = f, OF assms, of i 0 "[]" "[]" ctx s] inner by simp
  show ?case
  proof (cases r)
    case (Inl e)
    then show ?thesis
      using run_iterations_fail [OF i, of E w rs d u ctx s e ctx' s'] inner st by simp
  next
    case (Inr res)
    then show ?thesis
      using run_iterations_next [OF i, of E w rs d u ctx s res ctx' s'] inner st
        Suc.hyps(1) [OF k] by simp
  qed
qed

subsection \<open>Runs of quiet dispatches\<close>

lemma getExecution_emit: "getExecution w (emit es s) = getExecution w s"
  by (simp add: getExecution_def emit_def)

lemma getExecution_updateExecution: "getExecution w (updateExecution w r s) = Some r"
  by (simp add: getExecution_def updateExecution_def)

lemma executeRequest_noCancel_registry:
  "noCancel (dispatches E i j) \<Longrightarrow>
   getExecution w (snd (executeRequest E w rs n d u i j ctx s)) = Some (id' (rs ! j))"
  by (simp add: executeRequest_def Let_def noCancel_def cancelIf_def getExecution_emit
      getExecution_updateExecution split: awaited.splits bool.splits)

lemma executeRequest_quiet:
  assumes "quiet (dispatches E i j)"
  shows "\<exists>ctx' s'. executeRequest E w rs n d u i j ctx s =
           (Inr ([], requestResultsOf E rs i j, ctx'), s')"
  using assms
  by (auto simp: executeRequest_def Let_def quiet_def succeeds_def signalsRedirect_def
      requestResultsOf_def collected_def split: awaited.splits bool.splits option.splits)

lemma sendCalls_cancelExecution:
  "sendCalls (trace (cancelExecution w s)) = sendCalls (trace s)"
  by (simp add: cancelExecution_def stopExecution_def emit_def sendCalls_append
      split: option.splits)

lemma sendCalls_executeRequest_Inr:
  assumes "executeRequest E w rs n d u i j ctx s = (Inr x, s')"
  shows "sendCalls (trace s') = sendCalls (trace s) @ [(id' (rs ! j), i + 1)]"
  using assms
  by (auto simp: executeRequest_def Let_def cancelIf_def sendCalls_cancelExecution
      updateExecution_def emit_def sendCalls_append split: awaited.splits bool.splits)

lemma inner_quiet_prefix:
  assumes "j0 \<le> j1" "j1 \<le> length rs"
    and "\<forall>j. j0 \<le> j \<and> j < j1 \<longrightarrow> quiet (dispatches E i j)"
    and "getExecution w s \<noteq> None"
  shows "\<exists>ctx' s'.
           run_requests E w rs n d u i j0 [] acc ctx s =
           run_requests E w rs n d u i j1 [] (acc @ map (requestResultsOf E rs i) [j0..<j1]) ctx' s' \<and>
           getExecution w s' \<noteq> None \<and>
           length (responsesInfo ctx') = length (responsesInfo ctx) + (j1 - j0) \<and>
           iterationResults ctx' = iterationResults ctx \<and>
           store s' = store s \<and>
           sendCalls (trace s') = sendCalls (trace s) @ sendCallsOf rs i [j0..<j1]"
  using assms
proof (induction "j1 - j0" arbitrary: j0 acc ctx s)
  case 0
  then have "j0 = j1" by simp
  then show ?case using "0.prems"(4) by (auto simp: sendCallsOf_def)
next
  case (Suc k)
  then have lt: "j0 < j1" and j: "j0 < length rs" and k: "k = j1 - Suc j0" by auto
  have q: "quiet (dispatches E i j0)" using Suc.prems(3) lt by simp
  obtain ctx1 s1 where
    e: "executeRequest E w rs n d u i j0 ctx s = (Inr ([], requestResultsOf E rs i j0, ctx1), s1)"
    using executeRequest_quiet [OF q] by blast
  have live1: "getExecution w s1 \<noteq> None"
    using executeRequest_noCancel_registry [of E i j0 w rs n d u ctx s] q e by (simp add: quiet_def)
  have st1: "store s1 = store s"
    using store_executeRequest [of E w rs n d u i j0 ctx s] e by simp
  have sc1: "sendCalls (trace s1) = sendCalls (trace s) @ [(id' (rs ! j0), i + 1)]"
    using sendCalls_executeRequest_Inr [OF e] .
  have step: "run_requests E w rs n d u i j0 [] acc ctx s =
              run_requests E w rs n d u i (Suc j0) [] (acc @ [requestResultsOf E rs i j0]) ctx1 s1"
    using run_requests_execute [OF j Suc.prems(4) _ e] by simp
  have q': "\<forall>j. Suc j0 \<le> j \<and> j < j1 \<longrightarrow> quiet (dispatches E i j)"
    using Suc.prems(3) by simp
  obtain ctx' s' where
    ih: "run_requests E w rs n d u i (Suc j0) [] (acc @ [requestResultsOf E rs i j0]) ctx1 s1 =
         run_requests E w rs n d u i j1 []
           ((acc @ [requestResultsOf E rs i j0]) @ map (requestResultsOf E rs i) [Suc j0..<j1]) ctx' s'"
      "getExecution w s' \<noteq> None"
      "length (responsesInfo ctx') = length (responsesInfo ctx1) + (j1 - Suc j0)"
      "iterationResults ctx' = iterationResults ctx1"
      "store s' = store s1"
      "sendCalls (trace s') = sendCalls (trace s1) @ sendCallsOf rs i [Suc j0..<j1]"
    using Suc.hyps(1) [OF k _ Suc.prems(2) q' live1, of "acc @ [requestResultsOf E rs i j0]" ctx1] lt
    by auto
  have u: "[j0..<j1] = j0 # [Suc j0..<j1]" using lt by (simp add: upt_conv_Cons)
  then have "run_requests E w rs n d u i j0 [] acc ctx s =
      run_requests E w rs n d u i j1 [] (acc @ map (requestResultsOf E rs i) [j0..<j1]) ctx' s'"
    using step ih(1) by simp
  moreover have "length (responsesInfo ctx') = length (responsesInfo ctx) + (j1 - j0)"
    using ih(3) executeRequest_Inr_ctx(2) [OF e] lt by simp
  moreover have "iterationResults ctx' = iterationResults ctx"
    using ih(4) executeRequest_Inr_ctx(1) [OF e] by simp
  moreover have "store s' = store s"
    using ih(5) st1 by simp
  moreover have "sendCalls (trace s') = sendCalls (trace s) @ sendCallsOf rs i [j0..<j1]"
    using ih(6) sc1 u by (simp add: sendCallsOf_def)
  ultimately show ?case
    using ih(2) by blast
qed

lemma outer_quiet_prefix:
  assumes "i0 \<le> i1" "i1 \<le> n"
    and "\<forall>i j. i0 \<le> i \<and> i < i1 \<and> j < length rs \<longrightarrow> quiet (dispatches E i j)"
    and "getExecution w s \<noteq> None"
  shows "\<exists>ctx' s'.
           run_iterations E w rs n d u i0 ctx s = run_iterations E w rs n d u i1 ctx' s' \<and>
           getExecution w s' \<noteq> None \<and>
           iterationResults ctx' = iterationResults ctx @
             map (\<lambda>i. map (requestResultsOf E rs i) [0..<length rs]) [i0..<i1] \<and>
           length (responsesInfo ctx') = length (responsesInfo ctx) + (i1 - i0) * length rs \<and>
           store s' = store s \<and>
           sendCalls (trace s') = sendCalls (trace s) @
             concat (map (\<lambda>i. sendCallsOf rs i [0..<length rs]) [i0..<i1])"
  using assms
proof (induction "i1 - i0" arbitrary: i0 ctx s)
  case 0
  then have "i0 = i1" by simp
  then show ?case using "0.prems"(4) by auto
next
  case (Suc k)
  then have lt: "i0 < i1" and i: "i0 < n" and k: "k = i1 - Suc i0" by auto
  have q: "\<forall>j. 0 \<le> j \<and> j < length rs \<longrightarrow> quiet (dispatches E i0 j)"
    using Suc.prems(3) lt by simp
  obtain ctx1 s1 where
    inner: "run_requests E w rs n d u i0 0 [] [] ctx s =
            run_requests E w rs n d u i0 (length rs) []
              ([] @ map (requestResultsOf E rs i0) [0..<length rs]) ctx1 s1"
      "getExecution w s1 \<noteq> None"
      "length (responsesInfo ctx1) = length (responsesInfo ctx) + (length rs - 0)"
      "iterationResults ctx1 = iterationResults ctx"
      "store s1 = store s"
      "sendCalls (trace s1) = sendCalls (trace s) @ sendCallsOf rs i0 [0..<length rs]"
    using inner_quiet_prefix [OF _ _ q Suc.prems(4), where rs = rs and acc = "[]"
        and ctx = ctx and n = n and d = d and u = u] by auto
  have r: "run_requests E w rs n d u i0 0 [] [] ctx s =
           (Inr (map (requestResultsOf E rs i0) [0..<length rs]), ctx1, s1)"
    using inner(1) by (simp add: run_requests_done)
  let ?ctx2 = "ctx1\<lparr>iterationResults := iterationResults ctx1 @
                  [map (requestResultsOf E rs i0) [0..<length rs]]\<rparr>"
  have step: "run_iterations E w rs n d u i0 ctx s = run_iterations E w rs n d u (Suc i0) ?ctx2 s1"
    using run_iterations_next [OF i r] .
  have q': "\<forall>i j. Suc i0 \<le> i \<and> i < i1 \<and> j < length rs \<longrightarrow> quiet (dispatches E i j)"
    using Suc.prems(3) by simp
  obtain ctx' s' where
    ih: "run_iterations E w rs n d u (Suc i0) ?ctx2 s1 = run_iterations E w rs n d u i1 ctx' s'"
      "getExecution w s' \<noteq> None"
      "iterationResults ctx' = iterationResults ?ctx2 @
         map (\<lambda>i. map (requestResultsOf E rs i) [0..<length rs]) [Suc i0..<i1]"
      "length (responsesInfo ctx') = length (responsesInfo ?ctx2) + (i1 - Suc i0) * length rs"
      "store s' = store s1"
      "sendCalls (trace s') = sendCalls (trace s1) @
         concat (map (\<lambda>i. sendCallsOf rs i [0..<length rs]) [Suc i0..<i1])"
    using Suc.hyps(1) [OF k _ Suc.prems(2) q' inner(2), of ?ctx2] lt by auto
  have u: "[i0..<i1] = i0 # [Suc i0..<i1]" using lt by (simp add: upt_conv_Cons)
  have len: "length (responsesInfo ctx') = length (responsesInfo ctx) + (i1 - i0) * length rs"
  proof -
    have "i1 - i0 = Suc (i1 - Suc i0)" using lt by simp
    then show ?thesis using ih(4) inner(3) by simp
  qed
  have "run_iterations E w rs n d u i0 ctx s = run_iterations E w rs n d u i1 ctx' s'"
    using step ih(1) by simp
  moreover have "iterationResults ctx' = iterationResults ctx @
      map (\<lambda>i. map (requestResultsOf E rs i) [0..<length rs]) [i0..<i1]"
    using ih(3) inner(4) u by simp
  moreover have "store s' = store s"
    using ih(5) inner(5) by simp
  moreover have "sendCalls (trace s') = sendCalls (trace s) @
      concat (map (\<lambda>i. sendCallsOf rs i [0..<length rs]) [i0..<i1])"
    using ih(6) inner(6) u by simp
  ultimately show ?case
    using ih(2) len by blast
qed

subsection \<open>Cancellation\<close>


lemma cancelExecution_absent:
  "getExecution w s = None \<Longrightarrow> cancelExecution w s = s"
  by (simp add: cancelExecution_def)

lemma executeRequest_cancelled:
  assumes "succeeds (dispatches E i j)" "\<not> signalsRedirect (dispatches E i j)"
    and "\<not> noCancel (dispatches E i j)" "id' (rs ! j) \<noteq> []"
  shows "\<exists>ctx' s'. executeRequest E w rs n d u i j ctx s =
           (Inr ([], requestResultsOf E rs i j, ctx'), s') \<and> getExecution w s' = None"
  using assms
  by (auto simp: executeRequest_def Let_def succeeds_def signalsRedirect_def noCancel_def
      cancelIf_def cancelExecution_def getExecution_def updateExecution_def stopExecution_def
      emit_def requestResultsOf_def collected_def
      split: awaited.splits bool.splits option.splits)




subsection \<open>Facts about the example inputs and the start of a run\<close>

lemma getExecution_beginRun: "getExecution w (beginRun w s) = Some []"
  by (simp add: beginRun_def startExecution_def getExecution_def emit_def)

lemma store_beginRun: "store (beginRun w s) = store s"
  by (simp add: beginRun_def startExecution_def emit_def)

lemma sendCalls_beginRun: "sendCalls (trace (beginRun w s)) = sendCalls (trace s)"
  by (simp add: beginRun_def startExecution_def emit_def sendCalls_append)

lemma quiet_quietDispatch: "quiet quietDispatch"
  by (simp add: quiet_def noCancel_def succeeds_def signalsRedirect_def quietDispatch_def
      plainSendResult_def)

lemma trim_A: "trim (utf16 ''A'') = utf16 ''A''" "trim (utf16 ''B'') = utf16 ''B''"
  by (simp_all add: trim_def utf16_def isWhiteSpace_def whiteSpaceUnits_def)

subsection \<open>The last index found by \<open>findLastIndex\<close>\<close>

lemma findLastIndexFrom_iff:
  "findLastIndexFrom P xs k = int j \<longleftrightarrow>
     j < k \<and> P (xs ! j) \<and> (\<forall>j'. j < j' \<and> j' < k \<longrightarrow> \<not> P (xs ! j'))"
proof (induction k)
  case 0
  then show ?case by simp
next
  case (Suc k)
  show ?case
  proof (cases "P (xs ! k)")
    case True
    then show ?thesis
      by (auto simp: less_Suc_eq) 
  next
    case False
    then show ?thesis
      using Suc.IH by (auto simp: less_Suc_eq)
  qed
qed

subsection \<open>Skipped candidates\<close>



subsection \<open>Calls recorded in the trace\<close>

lemma createCalls_cancelExecution:
  "createCalls (trace (cancelExecution w s)) = createCalls (trace s)"
  by (simp add: cancelExecution_def stopExecution_def emit_def createCalls_append
      split: option.splits)

lemma createCalls_executeRequest:
  "createCalls (trace (snd (executeRequest E w rs n d u i j ctx s))) = createCalls (trace s)"
  by (simp add: executeRequest_def Let_def cancelIf_def createCalls_cancelExecution
      updateExecution_def emit_def createCalls_append split: awaited.splits bool.splits)

lemma createCalls_beginRun: "createCalls (trace (beginRun w s)) = createCalls (trace s)"
  by (simp add: beginRun_def startExecution_def emit_def createCalls_append)

subsection \<open>The points a run passes\<close>

text \<open>
  From every point the run passes, the rest of the loops gives the result of the whole
  loops; the invariants of the points; and what the loops return when the run is stopped
  or fails at a point.
\<close>

lemma restOfLoops_start:
  "0 < n \<Longrightarrow> run_iterations E w rs n d u 0 ctx s = restOfLoops E w rs n d u (0, 0, [], [], ctx, s)"
  by (subst run_iterations.simps) (simp add: restOfLoops_def split: prod.splits sum.splits)

lemma reaches_rest:
  assumes "reaches E w rs n d u s0 c"
  shows "run_iterations E w rs n d u 0 (initialTestCtx n u) (beginRun w s0) =
         restOfLoops E w rs n d u c"
  using assms
proof (induction rule: reaches.induct)
  case start
  then show ?case by (simp add: restOfLoops_start)
next
  case (skip i j nxt acc ctx s)
  then show ?case
    using run_requests_skip [of j rs w s nxt E n d u i acc ctx] by (simp add: restOfLoops_def)
next
  case (dispatch i j nxt acc ctx s t res ctx' s')
  then show ?case
    using run_requests_execute [of j rs w s nxt E n d u i ctx t res ctx' s' acc]
    by (simp add: restOfLoops_def)
next
  case (nextIteration i j nxt acc ctx s)
  have "run_iterations E w rs n d u (Suc i) (ctx\<lparr>iterationResults := iterationResults ctx @ [acc]\<rparr>) s =
        restOfLoops E w rs n d u
          (Suc i, 0, [], [], ctx\<lparr>iterationResults := iterationResults ctx @ [acc]\<rparr>, s)"
    using nextIteration.hyps(3)
    by (subst run_iterations.simps) (simp add: restOfLoops_def split: prod.splits sum.splits)
  then show ?case
    using nextIteration by (simp add: restOfLoops_def run_requests_done)
qed

lemma executeRequest_Inr_shape:
  assumes "executeRequest E w rs n d u i j ctx s = (Inr (t, res, ctx'), s')"
  shows "\<exists>r. sendResult (dispatches E i j) = Resolved r \<and>
           ctx' = ctx\<lparr>duration := Plus (duration ctx) (cDuration r),
                     responsesInfo := responsesInfo ctx @
                       [\<lparr>responseId = cResponseId r, originalRequestId = id' (rs ! j),
                         originalRequestName = name (rs ! j)\<rparr>]\<rparr> \<and>
           res = \<lparr>requestName = name (rs ! j), requestUrl = url (rs ! j), responseCode = 0,
                  results = cResults r\<rparr>"
  using assms
  by (auto simp: executeRequest_def Let_def split: awaited.splits bool.splits)

lemma reaches_inv:
  assumes "reaches E w rs n d u s0 (i, j, nxt, acc, ctx, s)"
  shows "i < n \<and> j \<le> length rs \<and> length (iterationResults ctx) = i \<and>
         store s = store s0 \<and> createCalls (trace s) = createCalls (trace s0) \<and>
         source ctx = utf16 ''runner'' \<and> iterations ctx = n \<and> avgRespTime ctx = 0 \<and>
         map originalRequestName (responsesInfo ctx) =
           map requestName (concat (iterationResults ctx) @ acc) \<and>
         (responsesInfo ctx = [] \<longrightarrow> getExecution w s = Some [])"
  using assms
proof (induction "(i, j, nxt, acc, ctx, s)" arbitrary: i j nxt acc ctx s rule: reaches.induct)
  case start
  then show ?case
    by (simp add: initialTestCtx_def store_beginRun createCalls_beginRun getExecution_beginRun)
next
  case (skip i j nxt acc ctx s)
  then show ?case by simp
next
  case (dispatch i j nxt acc ctx s t res ctx' s')
  have st: "store s' = store s"
    using store_executeRequest [of E w rs n d u i j ctx s] dispatch.hyps(6) by simp
  have cr: "createCalls (trace s') = createCalls (trace s)"
    using createCalls_executeRequest [of E w rs n d u i j ctx s] dispatch.hyps(6) by simp
  show ?case
    using dispatch.hyps(2) dispatch.hyps(3) st cr executeRequest_Inr_shape [OF dispatch.hyps(6)]
    by auto
next
  case (nextIteration i j nxt acc ctx s)
  then show ?case by simp
qed

lemma reaches_stopped:
  assumes "reaches E w rs n d u s0 (i, j, nxt, acc, ctx, s)" "j < length rs"
    and "getExecution w s = None"
  shows "run_iterations E w rs n d u 0 (initialTestCtx n u) (beginRun w s0) =
         (Inl Cancelled, ctx, s)"
  using reaches_rest [OF assms(1)] run_requests_stopped [OF assms(2,3)]
  by (simp add: restOfLoops_def)

lemma reaches_failed:
  assumes "reaches E w rs n d u s0 (i, j, nxt, acc, ctx, s)" "j < length rs"
    and "getExecution w s \<noteq> None" "nxt = [] \<or> redirectMatches rs j nxt"
    and "executeRequest E w rs n d u i j ctx s = (Inl e, s')"
  shows "run_iterations E w rs n d u 0 (initialTestCtx n u) (beginRun w s0) = (Inl e, ctx, s')"
  using reaches_rest [OF assms(1)] run_requests_fail [OF assms(2,3,4,5)]
  by (simp add: restOfLoops_def)

lemma run_requests_grows:
  "(\<exists>more. responsesInfo (fst (snd (run_requests E w rs n d u i j nxt acc ctx s))) =
            responsesInfo ctx @ more)"
proof (rule run_requests_rule
    [where P = "\<lambda>j nxt acc ctx s r. \<exists>more. responsesInfo (fst (snd r)) = responsesInfo ctx @ more"])
  fix j nxt acc ctx s t res ctx' s'
  assume e: "executeRequest E w rs n d u i j ctx s = (Inr (t, res, ctx'), s')"
    and ih: "\<exists>more. responsesInfo (fst (snd (run_requests E w rs n d u i (Suc j) t (acc @ [res]) ctx' s'))) =
        responsesInfo ctx' @ more"
  obtain x where "responsesInfo ctx' = responsesInfo ctx @ [x]"
    using executeRequest_Inr_shape [OF e] by auto
  then show "\<exists>more. responsesInfo (fst (snd (run_requests E w rs n d u i (Suc j) t (acc @ [res]) ctx' s'))) =
        responsesInfo ctx @ more"
    using ih by auto
qed simp_all

lemma run_iterations_grows:
  "(\<exists>more. iterationResults (fst (snd (run_iterations E w rs n d u i ctx s))) =
            iterationResults ctx @ more) \<and>
   (\<exists>more. responsesInfo (fst (snd (run_iterations E w rs n d u i ctx s))) =
            responsesInfo ctx @ more)"
proof (induction "n - i" arbitrary: i ctx s)
  case 0
  then show ?case by (simp add: run_iterations_done)
next
  case (Suc k)
  then have i: "i < n" and k: "k = n - Suc i" by auto
  obtain r ctx' s' where inner: "run_requests E w rs n d u i 0 [] [] ctx s = (r, ctx', s')"
    by (cases "run_requests E w rs n d u i 0 [] [] ctx s")
  have it: "iterationResults ctx' = iterationResults ctx"
    using run_requests_preserves [where f = store, OF store_executeRequest, of E w rs n d u i 0 "[]" "[]" ctx s]
      inner by simp
  obtain m1 where ri: "responsesInfo ctx' = responsesInfo ctx @ m1"
    using run_requests_grows [of E w rs n d u i 0 "[]" "[]" ctx s] inner by auto
  show ?case
  proof (cases r)
    case (Inl e)
    then show ?thesis
      using run_iterations_fail [OF i, of E w rs d u ctx s e ctx' s'] inner it ri by simp
  next
    case (Inr res)
    let ?c = "ctx'\<lparr>iterationResults := iterationResults ctx' @ [res]\<rparr>"
    have step: "run_iterations E w rs n d u i ctx s = run_iterations E w rs n d u (Suc i) ?c s'"
      using run_iterations_next [OF i, of E w rs d u ctx s res ctx' s'] inner Inr by simp
    obtain m2 m3 where
      "iterationResults (fst (snd (run_iterations E w rs n d u (Suc i) ?c s'))) =
         iterationResults ?c @ m2"
      "responsesInfo (fst (snd (run_iterations E w rs n d u (Suc i) ?c s'))) =
         responsesInfo ?c @ m3"
      using Suc.hyps(1) [OF k, of ?c s'] by auto
    then show ?thesis
      using step it ri by auto
  qed
qed

lemma restOfLoops_grows:
  "(\<exists>more. iterationResults (fst (snd (restOfLoops E w rs n d u (i, j, nxt, acc, ctx, s)))) =
            iterationResults ctx @ more) \<and>
   (\<exists>more. responsesInfo (fst (snd (restOfLoops E w rs n d u (i, j, nxt, acc, ctx, s)))) =
            responsesInfo ctx @ more)"
proof -
  obtain r ctx' s' where inner: "run_requests E w rs n d u i j nxt acc ctx s = (r, ctx', s')"
    by (cases "run_requests E w rs n d u i j nxt acc ctx s")
  have it: "iterationResults ctx' = iterationResults ctx"
    using run_requests_preserves [where f = store, OF store_executeRequest, of E w rs n d u i j nxt acc ctx s]
      inner by simp
  obtain m1 where ri: "responsesInfo ctx' = responsesInfo ctx @ m1"
    using run_requests_grows [of E w rs n d u i j nxt acc ctx s] inner by auto
  show ?thesis
  proof (cases r)
    case (Inl e)
    then show ?thesis
      using inner it ri by (simp add: restOfLoops_def)
  next
    case (Inr res)
    let ?c = "ctx'\<lparr>iterationResults := iterationResults ctx' @ [res]\<rparr>"
    obtain m2 m3 where
      "iterationResults (fst (snd (run_iterations E w rs n d u (Suc i) ?c s'))) =
         iterationResults ?c @ m2"
      "responsesInfo (fst (snd (run_iterations E w rs n d u (Suc i) ?c s'))) =
         responsesInfo ?c @ m3"
      using run_iterations_grows [of E w rs n d u "Suc i" ?c s'] by auto
    then show ?thesis
      using inner Inr it ri by (auto simp: restOfLoops_def)
  qed
qed

lemma run_requests_fields:
  "source (fst (snd (run_requests E w rs n d u i j nxt acc ctx s))) = source ctx \<and>
   iterations (fst (snd (run_requests E w rs n d u i j nxt acc ctx s))) = iterations ctx \<and>
   avgRespTime (fst (snd (run_requests E w rs n d u i j nxt acc ctx s))) = avgRespTime ctx"
proof (rule run_requests_rule
    [where P = "\<lambda>j nxt acc ctx s r. source (fst (snd r)) = source ctx \<and>
       iterations (fst (snd r)) = iterations ctx \<and> avgRespTime (fst (snd r)) = avgRespTime ctx"])
  fix j nxt acc ctx s t res ctx' s'
  assume e: "executeRequest E w rs n d u i j ctx s = (Inr (t, res, ctx'), s')"
    and ih: "source (fst (snd (run_requests E w rs n d u i (Suc j) t (acc @ [res]) ctx' s'))) = source ctx' \<and>
       iterations (fst (snd (run_requests E w rs n d u i (Suc j) t (acc @ [res]) ctx' s'))) = iterations ctx' \<and>
       avgRespTime (fst (snd (run_requests E w rs n d u i (Suc j) t (acc @ [res]) ctx' s'))) = avgRespTime ctx'"
  show "source (fst (snd (run_requests E w rs n d u i (Suc j) t (acc @ [res]) ctx' s'))) = source ctx \<and>
       iterations (fst (snd (run_requests E w rs n d u i (Suc j) t (acc @ [res]) ctx' s'))) = iterations ctx \<and>
       avgRespTime (fst (snd (run_requests E w rs n d u i (Suc j) t (acc @ [res]) ctx' s'))) = avgRespTime ctx"
    using ih executeRequest_Inr_shape [OF e] by auto
qed simp_all

lemma run_iterations_fields:
  "source (fst (snd (run_iterations E w rs n d u i ctx s))) = source ctx \<and>
   iterations (fst (snd (run_iterations E w rs n d u i ctx s))) = iterations ctx \<and>
   avgRespTime (fst (snd (run_iterations E w rs n d u i ctx s))) = avgRespTime ctx"
proof (induction "n - i" arbitrary: i ctx s)
  case 0
  then show ?case by (simp add: run_iterations_done)
next
  case (Suc k)
  then have i: "i < n" and k: "k = n - Suc i" by auto
  obtain r ctx' s' where inner: "run_requests E w rs n d u i 0 [] [] ctx s = (r, ctx', s')"
    by (cases "run_requests E w rs n d u i 0 [] [] ctx s")
  have f: "source ctx' = source ctx \<and> iterations ctx' = iterations ctx \<and>
      avgRespTime ctx' = avgRespTime ctx"
    using run_requests_fields [of E w rs n d u i 0 "[]" "[]" ctx s] inner by simp
  show ?case
  proof (cases r)
    case (Inl e)
    then show ?thesis
      using run_iterations_fail [OF i, of E w rs d u ctx s e ctx' s'] inner f by simp
  next
    case (Inr res)
    then show ?thesis
      using run_iterations_next [OF i, of E w rs d u ctx s res ctx' s'] inner f
        Suc.hyps(1) [OF k, of "ctx'\<lparr>iterationResults := iterationResults ctx' @ [res]\<rparr>" s']
      by simp
  qed
qed

subsection \<open>The end of a run\<close>

lemma accumulated_fields:
  "source (accumulatedTestCtx E w rs n d u s0) = utf16 ''runner'' \<and>
   iterations (accumulatedTestCtx E w rs n d u s0) = n \<and>
   avgRespTime (accumulatedTestCtx E w rs n d u s0) = 0"
  using run_iterations_fields [of E w rs n d u 0 "initialTestCtx n u" "beginRun w s0"]
  by (simp add: accumulatedTestCtx_def initialTestCtx_def)

lemma createCalls_runCollectionAction:
  "createCalls (trace (snd (runCollectionAction E w rs n d u s0))) =
     createCalls (trace s0) @ [toRunnerTestResult w (accumulatedTestCtx E w rs n d u s0)] \<and>
   (createResult E = Resolved () \<longrightarrow>
      store (snd (runCollectionAction E w rs n d u s0)) =
        store s0 @ [toRunnerTestResult w (accumulatedTestCtx E w rs n d u s0)])"
proof -
  obtain r ctx' s' where
    loop: "run_iterations E w rs n d u 0 (initialTestCtx n u) (beginRun w s0) = (r, ctx', s')"
    by (cases "run_iterations E w rs n d u 0 (initialTestCtx n u) (beginRun w s0)")
  have st: "store s' = store s0"
    using run_iterations_preserves [where f = store, OF store_executeRequest,
        of E w rs n d u 0 "initialTestCtx n u" "beginRun w s0"] loop
    by (simp add: store_beginRun)
  have cr: "createCalls (trace s') = createCalls (trace s0)"
    using run_iterations_preserves [where f = "\<lambda>s. createCalls (trace s)",
        OF createCalls_executeRequest, of E w rs n d u 0 "initialTestCtx n u" "beginRun w s0"]
      loop
    by (simp add: createCalls_beginRun)
  have acc: "accumulatedTestCtx E w rs n d u s0 = ctx'"
    using loop by (simp add: accumulatedTestCtx_def)
  show ?thesis
  proof (cases r)
    case (Inl e)
    then show ?thesis
      using loop st cr acc
      by (simp add: runCollectionAction_def finishRun_def finallyBlock_def Let_def emit_def
          createCalls_append createCalls_cancelExecution store_cancelExecution
          split: awaited.splits)
  next
    case (Inr x)
    then show ?thesis
      using loop st cr acc
      by (simp add: runCollectionAction_def finishRun_def finallyBlock_def Let_def emit_def
          createCalls_append split: awaited.splits)
  qed
qed

lemma finishRun_failure:
  "finishRun E w (Inl e, ctx, s') =
     ((case createResult E of
         Rejected m \<Rightarrow> Thrown (StoreRejected m)
       | Resolved x \<Rightarrow> (case errMsg e of Inl x \<Rightarrow> Thrown x | Inr m \<Rightarrow> Returned (Redirect (Some m)))),
      (case createResult E of
         Rejected m \<Rightarrow> emit [CreateRunnerTestResult (toRunnerTestResult w ctx)] (cancelExecution w s')
       | Resolved x \<Rightarrow>
           (emit [CreateRunnerTestResult (toRunnerTestResult w ctx)] (cancelExecution w s'))
             \<lparr>store := store s' @ [toRunnerTestResult w ctx]\<rparr>))"
  by (simp add: finishRun_def finallyBlock_def Let_def store_emit store_cancelExecution
      split: awaited.splits)





subsection \<open>Steps of the example runs\<close>

lemma reaches_step_quiet:
  assumes "reaches E w rs n d u s0 (i, j, [], acc, ctx, s)" "j < length rs"
    and "getExecution w s \<noteq> None" "quiet (dispatches E i j)"
  shows "\<exists>ctx' s'. reaches E w rs n d u s0 (i, Suc j, [], acc @ [requestResultsOf E rs i j], ctx', s') \<and>
           getExecution w s' \<noteq> None"
proof -
  obtain ctx' s' where
    e: "executeRequest E w rs n d u i j ctx s = (Inr ([], requestResultsOf E rs i j, ctx'), s')"
    using executeRequest_quiet [OF assms(4)] by blast
  have "getExecution w s' \<noteq> None"
    using executeRequest_noCancel_registry [of E i j w rs n d u ctx s] assms(4) e
    by (simp add: quiet_def)
  moreover have "reaches E w rs n d u s0 (i, Suc j, [], acc @ [requestResultsOf E rs i j], ctx', s')"
    using reaches.dispatch [OF assms(1,2,3) _ e] by simp
  ultimately show ?thesis by blast
qed

lemma reaches_step_cancelled:
  assumes "reaches E w rs n d u s0 (i, j, [], acc, ctx, s)" "j < length rs"
    and "getExecution w s \<noteq> None"
    and "succeeds (dispatches E i j)" "\<not> signalsRedirect (dispatches E i j)"
    and "\<not> noCancel (dispatches E i j)" "id' (rs ! j) \<noteq> []"
  shows "\<exists>ctx' s'. reaches E w rs n d u s0 (i, Suc j, [], acc @ [requestResultsOf E rs i j], ctx', s') \<and>
           getExecution w s' = None"
proof -
  obtain ctx' s' where
    e: "executeRequest E w rs n d u i j ctx s = (Inr ([], requestResultsOf E rs i j, ctx'), s')"
    and g: "getExecution w s' = None"
    using executeRequest_cancelled [OF assms(4,5,6,7)] by blast
  have "reaches E w rs n d u s0 (i, Suc j, [], acc @ [requestResultsOf E rs i j], ctx', s')"
    using reaches.dispatch [OF assms(1,2,3) _ e] by simp
  then show ?thesis using g by blast
qed


lemma quiet_facts:
  "quiet (dispatches cancelLastEnv 0 0)" "quiet (dispatches metaMissingEnv 0 0)"
  "quiet (dispatches (rejectingEnv x) 0 0)"
  by (simp_all add: cancelLastEnv_def metaMissingEnv_def rejectingEnv_def quiet_quietDispatch)

lemma two: "length twoRequests = 2" "id' (twoRequests ! 0) \<noteq> []" "id' (twoRequests ! 1) \<noteq> []"
  "id' (twoRequests ! 0) = utf16 ''r1''"
  by (simp_all add: twoRequests_def request_def utf16_def)

lemma first_quiet_step:
  assumes "quiet (dispatches E 0 0)" "0 < n"
  shows "\<exists>ctx s. reaches E exampleWorkspace twoRequests n d u emptyState
           (0, Suc 0, [], [requestResultsOf E twoRequests 0 0], ctx, s) \<and>
         getExecution exampleWorkspace s \<noteq> None"
proof -
  have r0: "reaches E exampleWorkspace twoRequests n d u emptyState
      (0, 0, [], [], initialTestCtx n u, beginRun exampleWorkspace emptyState)"
    using assms(2) by (rule reaches.start)
  show ?thesis
    using reaches_step_quiet [OF r0 _ _ assms(1)] two(1) by (simp add: getExecution_beginRun)
qed

text \<open>The definitions unfolded to run the action on the example inputs.\<close>

lemmas example_defs = runCollectionAction_def finishRun_def finallyBlock_def beginRun_def
  initialTestCtx_def toRunnerTestResult_def executeRequest_def cancelIf_def cancelExecution_def
  getExecution_def startExecution_def stopExecution_def updateExecution_def emit_def
  getCurIterationUserUploadData_def Let_def cancelEnv_def redirectEnv_def quietEnv_def
  quietDispatch_def plainSendResult_def twoRequests_def requestsNameClash_def request_def
  metaMissingEnv_def rejectingEnv_def cancelLastEnv_def storeRejectsEnv_def
  emptyState_def exampleWorkspace_def utf16_def accumulatedTestCtx_def errMsg_def

lemmas more_defs = cancelRedirectEnv_def threeRequests_def lastCreated_def
  isHighSurrogate_def isLowSurrogate_def


section \<open>The claims\<close>

text \<open>
  C1. In a run of \<open>n\<close> iterations over the request list in which every dispatch is
  quiet (no redirect target, no failure, no cancel) and the store accepts the record, the
  action returns the plain redirect and appends one record to the store. Its
  \<open>iterationResults\<close> has one entry per iteration, in order, and the entry of iteration
  \<open>i\<close> has one result per request, in the order of the request list: the result at
  position \<open>j\<close> carries the name and url of request \<open>j\<close> and the test results the
  executor collected for it. \<open>responsesInfo\<close> has \<open>n\<close> times the number of requests
  entries, and the executor has been called once per iteration and request, in that order.
\<close>

theorem quiet_run_results:
  assumes "\<forall>i j. i < n \<and> j < length requests \<longrightarrow> quiet (dispatches E i j)"
    and "createResult E = Resolved ()"
  shows "\<exists>r. runCollectionAction E w requests n d u s =
               (Returned (Redirect None), r) \<and>
             store r = store s @ [last (store r)] \<and>
             rIterationResults (last (store r)) =
               map (\<lambda>i. map (requestResultsOf E requests i) [0..<length requests]) [0..<n] \<and>
             length (rResponsesInfo (last (store r))) = n * length requests \<and>
             sendCalls (trace r) = sendCalls (trace s) @
               concat (map (\<lambda>i. sendCallsOf requests i [0..<length requests]) [0..<n])"
proof -
  have q: "\<forall>i j. 0 \<le> i \<and> i < n \<and> j < length requests \<longrightarrow> quiet (dispatches E i j)"
    using assms(1) by simp
  have live: "getExecution w (beginRun w s) \<noteq> None"
    by (simp add: getExecution_beginRun)
  obtain ctx' s' where
    run: "run_iterations E w requests n d u 0 (initialTestCtx n u) (beginRun w s) =
          run_iterations E w requests n d u n ctx' s'"
    and it: "iterationResults ctx' = iterationResults (initialTestCtx n u) @
          map (\<lambda>i. map (requestResultsOf E requests i) [0..<length requests]) [0..<n]"
    and ri: "length (responsesInfo ctx') =
          length (responsesInfo (initialTestCtx n u)) + (n - 0) * length requests"
    and st: "store s' = store (beginRun w s)"
    and sc: "sendCalls (trace s') = sendCalls (trace (beginRun w s)) @
          concat (map (\<lambda>i. sendCallsOf requests i [0..<length requests]) [0..<n])"
    using outer_quiet_prefix [OF _ _ q live, where n = n and d = d and u = u
        and ctx = "initialTestCtx n u"] by auto
  have fin: "run_iterations E w requests n d u 0 (initialTestCtx n u) (beginRun w s) =
        (Inr (), ctx', s')"
    using run by (simp add: run_iterations_done)
  show ?thesis
    using fin it ri st sc assms(2)
    by (simp add: runCollectionAction_def finishRun_def finallyBlock_def Let_def
        toRunnerTestResult_def initialTestCtx_def store_beginRun sendCalls_beginRun emit_def
        sendCalls_append)
qed

theorem quiet_run_results_witness:
  "(\<forall>i j. quiet (dispatches quietEnv i j)) \<and>
   createResult quietEnv = Resolved () \<and>
   fst (runCollectionAction quietEnv exampleWorkspace twoRequests 2 0 None emptyState) =
     Returned (Redirect None) \<and>
   map (map requestName) (rIterationResults (last (store (snd
     (runCollectionAction quietEnv exampleWorkspace twoRequests 2 0 None emptyState))))) =
     [[utf16 ''Req1'', utf16 ''Req2''], [utf16 ''Req1'', utf16 ''Req2'']] \<and>
   length (rResponsesInfo (last (store (snd
     (runCollectionAction quietEnv exampleWorkspace twoRequests 2 0 None emptyState))))) = 4 \<and>
   sendCalls (trace (snd
     (runCollectionAction quietEnv exampleWorkspace twoRequests 2 0 None emptyState))) =
     [(utf16 ''r1'', 1), (utf16 ''r2'', 1), (utf16 ''r1'', 2), (utf16 ''r2'', 2)]"
proof -
  have h1: "\<forall>i j. i < 2 \<and> j < length twoRequests \<longrightarrow> quiet (dispatches quietEnv i j)"
    by (simp add: quietEnv_def quiet_quietDispatch)
  have h2: "createResult quietEnv = Resolved ()"
    by (simp add: quietEnv_def)
  have u2: "[0..<2] = [0, Suc 0]"
    by (simp add: upt_rec)
  show ?thesis
    using quiet_run_results [OF h1 h2, of exampleWorkspace 0 None emptyState] h2 u2
    by (auto simp: requestResultsOf_def sendCallsOf_def twoRequests_def request_def quietEnv_def
        quiet_quietDispatch emptyState_def)
qed

text \<open>
  C2, as the code has it. Whatever the loops and the store do, the action calls
  \<open>models.runnerTestResult.create\<close> exactly once, and the record it
  passes has seven fields: \<open>parentId\<close> is the workspace id, \<open>source\<close> is
  \<open>'runner'\<close>, \<open>iterations\<close> is the number asked for, \<open>avgRespTime\<close> is 0, and
  \<open>duration\<close>, \<open>iterationResults\<close> and \<open>responsesInfo\<close> are those of
  \<open>testCtx\<close> as the loops left it. The \<open>environmentId\<close>, \<open>iterationData\<close>,
  \<open>testCount\<close> and \<open>done\<close> of \<open>testCtx\<close> are not passed. When the store
  resolves the call it holds that record after the ones it held. What \<open>testCtx\<close> held at
  any point the run passes is kept: its \<open>iterationResults\<close> and \<open>responsesInfo\<close> are
  prefixes of the ones in the record. When the run ends at the request at index \<open>j\<close> of
  iteration \<open>i\<close>, by the liveness check or by a failure of the dispatch, the record is
  made from \<open>testCtx\<close> at the head of the loop body: one entry of
  \<open>iterationResults\<close> for each of the \<open>i\<close> completed iterations, and a
  \<open>responsesInfo\<close> entry for each of their results and for each result \<open>acc\<close>
  of the iteration in progress.
\<close>

theorem finalization_persists_record:
  "createCalls (trace (snd (runCollectionAction E w requests n d u s0))) =
     createCalls (trace s0) @
       [\<lparr>parentId = w, rSource = utf16 ''runner'', rIterations = n,
         rDuration = duration (accumulatedTestCtx E w requests n d u s0),
         rAvgRespTime = 0,
         rIterationResults = iterationResults (accumulatedTestCtx E w requests n d u s0),
         rResponsesInfo = responsesInfo (accumulatedTestCtx E w requests n d u s0)\<rparr>] \<and>
   (createResult E = Resolved () \<longrightarrow>
      store (snd (runCollectionAction E w requests n d u s0)) =
        store s0 @
          [\<lparr>parentId = w, rSource = utf16 ''runner'', rIterations = n,
            rDuration = duration (accumulatedTestCtx E w requests n d u s0),
            rAvgRespTime = 0,
            rIterationResults = iterationResults (accumulatedTestCtx E w requests n d u s0),
            rResponsesInfo = responsesInfo (accumulatedTestCtx E w requests n d u s0)\<rparr>]) \<and>
   (reaches E w requests n d u s0 (i, j, nxt, acc, ctx, s) \<longrightarrow>
      (\<exists>more. iterationResults (accumulatedTestCtx E w requests n d u s0) =
                iterationResults ctx @ more) \<and>
      (\<exists>more. responsesInfo (accumulatedTestCtx E w requests n d u s0) =
                responsesInfo ctx @ more)) \<and>
   (reaches E w requests n d u s0 (i, j, nxt, acc, ctx, s) \<and> j < length requests \<and>
    (getExecution w s = None \<or>
     (nxt = [] \<or> redirectMatches requests j nxt) \<and>
     isl (fst (executeRequest E w requests n d u i j ctx s))) \<longrightarrow>
      accumulatedTestCtx E w requests n d u s0 = ctx \<and> length (iterationResults ctx) = i \<and>
      map originalRequestName (responsesInfo ctx) =
        map requestName (concat (iterationResults ctx) @ acc))"
proof -
  let ?A = "accumulatedTestCtx E w requests n d u s0"
  have rec: "toRunnerTestResult w ?A =
      \<lparr>parentId = w, rSource = utf16 ''runner'', rIterations = n, rDuration = duration ?A,
       rAvgRespTime = 0, rIterationResults = iterationResults ?A,
       rResponsesInfo = responsesInfo ?A\<rparr>"
    using accumulated_fields [of E w requests n d u s0] by (simp add: toRunnerTestResult_def)
  have grow: "(\<exists>more. iterationResults ?A = iterationResults ctx @ more) \<and>
      (\<exists>more. responsesInfo ?A = responsesInfo ctx @ more)"
    if "reaches E w requests n d u s0 (i, j, nxt, acc, ctx, s)"
    using reaches_rest [OF that] restOfLoops_grows [of E w requests n d u i j nxt acc ctx s]
    by (simp add: accumulatedTestCtx_def)
  have abort: "?A = ctx \<and> length (iterationResults ctx) = i \<and>
      map originalRequestName (responsesInfo ctx) =
        map requestName (concat (iterationResults ctx) @ acc)"
    if r: "reaches E w requests n d u s0 (i, j, nxt, acc, ctx, s)" and j: "j < length requests"
      and f: "getExecution w s = None \<or>
        (nxt = [] \<or> redirectMatches requests j nxt) \<and>
        isl (fst (executeRequest E w requests n d u i j ctx s))"
  proof -
    have a: "?A = ctx"
    proof (cases "getExecution w s")
      case None
      then show ?thesis
        using reaches_stopped [OF r j] by (simp add: accumulatedTestCtx_def)
    next
      case (Some v)
      then have live: "getExecution w s \<noteq> None" by simp
      then have m: "nxt = [] \<or> redirectMatches requests j nxt"
        and l: "isl (fst (executeRequest E w requests n d u i j ctx s))"
        using f by auto
      obtain e s' where "executeRequest E w requests n d u i j ctx s = (Inl e, s')"
        using l by (cases "executeRequest E w requests n d u i j ctx s") (auto simp: isl_def)
      then show ?thesis
        using reaches_failed [OF r j live m] by (simp add: accumulatedTestCtx_def)
    qed
    then show ?thesis using reaches_inv [OF r] by simp
  qed
  show ?thesis
    using createCalls_runCollectionAction [of E w requests n d u s0] rec grow abort
    by (simp del: split_paired_Ex)
qed

theorem finalization_persists_record_witness:
  "createResult (rejectingEnv (Text (utf16 ''boom''))) = Resolved () \<and>
   store (snd (runCollectionAction (rejectingEnv (Text (utf16 ''boom''))) exampleWorkspace
            twoRequests 1 0 None emptyState)) =
     [\<lparr>parentId = exampleWorkspace, rSource = utf16 ''runner'', rIterations = 1,
       rDuration = Plus (Double 0x3FF0000000000000) (Double 0x4014000000000000),
       rAvgRespTime = 0, rIterationResults = [],
       rResponsesInfo = [\<lparr>responseId = utf16 ''res_1'', originalRequestId = utf16 ''r1'',
                          originalRequestName = utf16 ''Req1''\<rparr>]\<rparr>] \<and>
   (\<exists>res ctx s. reaches (rejectingEnv (Text (utf16 ''boom''))) exampleWorkspace twoRequests 1 0
      None emptyState (0, Suc 0, [], [res], ctx, s) \<and>
      accumulatedTestCtx (rejectingEnv (Text (utf16 ''boom''))) exampleWorkspace twoRequests 1 0
        None emptyState = ctx)"
proof -
  let ?E = "rejectingEnv (Text (utf16 ''boom''))"
  let ?w = exampleWorkspace
  have c: "createResult ?E = Resolved ()"
    by (simp add: rejectingEnv_def)
  obtain c1 s1 where
    r1: "reaches ?E ?w twoRequests 1 0 None emptyState
           (0, Suc 0, [], [requestResultsOf ?E twoRequests 0 0], c1, s1)"
    and l1: "getExecution ?w s1 \<noteq> None"
    using first_quiet_step [OF quiet_facts(3), of 1 "Text (utf16 ''boom'')" 0 None] by auto
  have f: "isl (fst (executeRequest ?E ?w twoRequests 1 0 None 0 (Suc 0) c1 s1))"
    by (simp add: executeRequest_def Let_def rejectingEnv_def quietDispatch_def)
  have j: "Suc 0 < length twoRequests"
    using two(1) by simp
  note t = finalization_persists_record [of ?E ?w twoRequests 1 0 None emptyState 0 "Suc 0" "[]"
      "[requestResultsOf ?E twoRequests 0 0]" c1 s1]
  have a: "accumulatedTestCtx ?E ?w twoRequests 1 0 None emptyState = c1"
    using t r1 j f by blast
  have st: "store (snd (runCollectionAction ?E ?w twoRequests 1 0 None emptyState)) =
      store emptyState @
        [\<lparr>parentId = ?w, rSource = utf16 ''runner'', rIterations = 1,
          rDuration = duration (accumulatedTestCtx ?E ?w twoRequests 1 0 None emptyState),
          rAvgRespTime = 0,
          rIterationResults = iterationResults (accumulatedTestCtx ?E ?w twoRequests 1 0 None emptyState),
          rResponsesInfo = responsesInfo (accumulatedTestCtx ?E ?w twoRequests 1 0 None emptyState)\<rparr>]"
    using t c by blast
  have ev: "duration (accumulatedTestCtx ?E ?w twoRequests 1 0 None emptyState) =
        Plus (Double 0x3FF0000000000000) (Double 0x4014000000000000)"
    "iterationResults (accumulatedTestCtx ?E ?w twoRequests 1 0 None emptyState) = []"
    "responsesInfo (accumulatedTestCtx ?E ?w twoRequests 1 0 None emptyState) =
       [\<lparr>responseId = utf16 ''res_1'', originalRequestId = utf16 ''r1'',
         originalRequestName = utf16 ''Req1''\<rparr>]"
    by (simp_all add: example_defs more_defs run_requests.simps run_iterations.simps)
  have s: "store (snd (runCollectionAction ?E ?w twoRequests 1 0 None emptyState)) =
     [\<lparr>parentId = exampleWorkspace, rSource = utf16 ''runner'', rIterations = 1,
       rDuration = Plus (Double 0x3FF0000000000000) (Double 0x4014000000000000),
       rAvgRespTime = 0, rIterationResults = [],
       rResponsesInfo = [\<lparr>responseId = utf16 ''res_1'', originalRequestId = utf16 ''r1'',
                          originalRequestName = utf16 ''Req1''\<rparr>]\<rparr>]"
    using st ev by (simp add: emptyState_def)
  have ex: "\<exists>res ctx s. reaches ?E ?w twoRequests 1 0 None emptyState (0, Suc 0, [], [res], ctx, s) \<and>
      accumulatedTestCtx ?E ?w twoRequests 1 0 None emptyState = ctx"
    using r1 a by blast
  show ?thesis
    by (intro conjI c s ex)
qed

text \<open>
  C2 as stated fails for the progress of the iteration in progress. The result of a
  request is held in the local \<open>iterationResults\<close> of the inner loop until the
  iteration ends, and the finally block reads \<open>testCtx\<close> only. With two requests of
  which the second is rejected by the executor, the first has been sent, its script has
  produced a test result, and the one record in the store has no iteration result.
\<close>

theorem failed_iteration_results_not_persisted:
  "collected (rejectingEnv (Text (utf16 ''boom''))) 0 0 =
     [\<lparr>testCase = utf16 ''status is 200'', passed = True\<rparr>] \<and>
   sendCalls (trace (snd (runCollectionAction (rejectingEnv (Text (utf16 ''boom'')))
     exampleWorkspace twoRequests 1 0 None emptyState))) = [(utf16 ''r1'', 1), (utf16 ''r2'', 1)] \<and>
   map rIterationResults (store (snd (runCollectionAction (rejectingEnv (Text (utf16 ''boom'')))
     exampleWorkspace twoRequests 1 0 None emptyState))) = [[]]"
  by (simp add: example_defs more_defs collected_def run_requests.simps run_iterations.simps)

text \<open>
  C3, as the code has it. The run is at the head of the loop body for the request at
  index \<open>j\<close> of iteration \<open>i\<close>, whatever was dispatched, skipped or redirected
  before, with any redirect target pending and with \<open>j = 0\<close> included, and the
  registry entry is absent. The liveness check comes before the redirect test, so the run
  stops there: the action returns the error redirect that carries the cancellation, or
  throws the rejection of the store when the store rejects the record. All that is added
  to the trace after that point is the one call of \<open>create\<close>, so nothing is dispatched
  any more, and the store holds the record after the ones it held when it accepts it. The
  record is made from \<open>testCtx\<close> at that point: its \<open>iterationResults\<close> has the
  \<open>i\<close> entries of the completed iterations and none for the iteration in progress,
  whose results \<open>acc\<close> appear in \<open>responsesInfo\<close> only, after those of the completed
  iterations.
\<close>

theorem cancel_before_request_stops_run:
  assumes "reaches E w requests n d u s0 (i, j, nxt, acc, ctx, s)"
    and "j < length requests"
    and "getExecution w s = None"
  shows "fst (runCollectionAction E w requests n d u s0) =
           (case createResult E of
              Resolved x \<Rightarrow> Returned (Redirect (Some Cancelled))
            | Rejected m \<Rightarrow> Thrown (StoreRejected m)) \<and>
         trace (snd (runCollectionAction E w requests n d u s0)) =
           trace s @ [CreateRunnerTestResult (lastCreated (snd (runCollectionAction E w requests n d u s0)))] \<and>
         (createResult E = Resolved () \<longrightarrow>
            store (snd (runCollectionAction E w requests n d u s0)) =
              store s0 @ [lastCreated (snd (runCollectionAction E w requests n d u s0))]) \<and>
         i < n \<and>
         length (rIterationResults (lastCreated (snd (runCollectionAction E w requests n d u s0)))) = i \<and>
         rIterationResults (lastCreated (snd (runCollectionAction E w requests n d u s0))) =
           iterationResults ctx \<and>
         rResponsesInfo (lastCreated (snd (runCollectionAction E w requests n d u s0))) =
           responsesInfo ctx \<and>
         map originalRequestName
           (rResponsesInfo (lastCreated (snd (runCollectionAction E w requests n d u s0)))) =
           map requestName
             (concat (rIterationResults (lastCreated (snd (runCollectionAction E w requests n d u s0)))) @
              acc)"
proof -
  have loop: "run_iterations E w requests n d u 0 (initialTestCtx n u) (beginRun w s0) =
      (Inl Cancelled, ctx, s)"
    using reaches_stopped [OF assms] .
  have run: "runCollectionAction E w requests n d u s0 = finishRun E w (Inl Cancelled, ctx, s)"
    using loop by (simp add: runCollectionAction_def)
  have c: "cancelExecution w s = s"
    using assms(3) by (simp add: cancelExecution_absent)
  have tr: "trace (snd (runCollectionAction E w requests n d u s0)) =
      trace s @ [CreateRunnerTestResult (toRunnerTestResult w ctx)]"
    using run c by (simp add: finishRun_failure emit_def split: awaited.splits)
  then have lc: "lastCreated (snd (runCollectionAction E w requests n d u s0)) =
      toRunnerTestResult w ctx"
    by (simp add: lastCreated_def createCalls_append)
  have inv: "i < n \<and> length (iterationResults ctx) = i \<and> store s = store s0 \<and>
      map originalRequestName (responsesInfo ctx) =
        map requestName (concat (iterationResults ctx) @ acc)"
    using reaches_inv [OF assms(1)] by simp
  have out: "fst (runCollectionAction E w requests n d u s0) =
      (case createResult E of
         Resolved x \<Rightarrow> Returned (Redirect (Some Cancelled))
       | Rejected m \<Rightarrow> Thrown (StoreRejected m))"
    using run by (simp add: finishRun_failure errMsg_def split: awaited.splits)
  have st: "createResult E = Resolved () \<longrightarrow>
      store (snd (runCollectionAction E w requests n d u s0)) = store s0 @ [toRunnerTestResult w ctx]"
    using run c inv by (simp add: finishRun_failure)
  show ?thesis
    using out tr lc inv st by (simp add: toRunnerTestResult_def)
qed

theorem cancel_before_request_stops_run_witness:
  "fst (runCollectionAction cancelLastEnv exampleWorkspace twoRequests 2 0 None emptyState) =
     Returned (Redirect (Some Cancelled)) \<and>
   length (rIterationResults (lastCreated (snd
     (runCollectionAction cancelLastEnv exampleWorkspace twoRequests 2 0 None emptyState)))) = 1 \<and>
   length (rResponsesInfo (lastCreated (snd
     (runCollectionAction cancelLastEnv exampleWorkspace twoRequests 2 0 None emptyState)))) = 2 \<and>
   sendCalls (trace (snd
     (runCollectionAction cancelLastEnv exampleWorkspace twoRequests 2 0 None emptyState))) =
     [(utf16 ''r1'', 1), (utf16 ''r2'', 1)] \<and>
   fst (runCollectionAction cancelRedirectEnv exampleWorkspace threeRequests 1 0 None emptyState) =
     Returned (Redirect (Some Cancelled)) \<and>
   rIterationResults (lastCreated (snd
     (runCollectionAction cancelRedirectEnv exampleWorkspace threeRequests 1 0 None emptyState))) =
     [] \<and>
   length (rResponsesInfo (lastCreated (snd
     (runCollectionAction cancelRedirectEnv exampleWorkspace threeRequests 1 0 None emptyState)))) =
     1"
proof -
  let ?w = exampleWorkspace
  let ?R = "reaches cancelLastEnv ?w twoRequests 2 0 None emptyState"
  have r0: "?R (0, 0, [], [], initialTestCtx 2 None, beginRun ?w emptyState)"
    by (rule reaches.start) simp
  obtain c1 s1 where
    r1: "?R (0, Suc 0, [], [] @ [requestResultsOf cancelLastEnv twoRequests 0 0], c1, s1)"
    and l1: "getExecution ?w s1 \<noteq> None"
    using reaches_step_quiet [OF r0 _ _ quiet_facts(1)] two(1)
    by (auto simp: getExecution_beginRun)
  have d: "succeeds (dispatches cancelLastEnv 0 (Suc 0))"
    "\<not> signalsRedirect (dispatches cancelLastEnv 0 (Suc 0))"
    "\<not> noCancel (dispatches cancelLastEnv 0 (Suc 0))"
    by (simp_all add: cancelLastEnv_def succeeds_def signalsRedirect_def noCancel_def
        quietDispatch_def plainSendResult_def)
  obtain c2 s2 a2 where
    r2: "?R (0, Suc (Suc 0), [], a2, c2, s2)" and g2: "getExecution ?w s2 = None"
    using reaches_step_cancelled [OF r1 _ l1 d] two by auto
  have r3: "?R (Suc 0, 0, [], [], c2\<lparr>iterationResults := iterationResults c2 @ [a2]\<rparr>, s2)"
    using reaches.nextIteration [OF r2] two(1) by simp
  have j: "0 < length twoRequests" using two(1) by simp
  have c: "createResult cancelLastEnv = Resolved ()"
    by (simp add: cancelLastEnv_def)
  note t1 = cancel_before_request_stops_run [OF r3 j g2]
  have e1: "length (rResponsesInfo (lastCreated (snd
      (runCollectionAction cancelLastEnv ?w twoRequests 2 0 None emptyState)))) = 2"
    "sendCalls (trace (snd
      (runCollectionAction cancelLastEnv ?w twoRequests 2 0 None emptyState))) =
      [(utf16 ''r1'', 1), (utf16 ''r2'', 1)]"
    by (simp_all add: example_defs more_defs run_requests.simps run_iterations.simps
        createCalls_append)
  let ?Q = "reaches cancelRedirectEnv ?w threeRequests 1 0 None emptyState"
  have q0: "?Q (0, 0, [], [], initialTestCtx 1 None, beginRun ?w emptyState)"
    by (rule reaches.start) simp
  obtain x sx where
    x: "executeRequest cancelRedirectEnv ?w threeRequests 1 0 None 0 0 (initialTestCtx 1 None)
          (beginRun ?w emptyState) = (x, sx)"
    by (cases "executeRequest cancelRedirectEnv ?w threeRequests 1 0 None 0 0
          (initialTestCtx 1 None) (beginRun ?w emptyState)")
  have "\<exists>res cx. fst (executeRequest cancelRedirectEnv ?w threeRequests 1 0 None 0 0
      (initialTestCtx 1 None) (beginRun ?w emptyState)) = Inr (utf16 ''r3'', res, cx)"
    by (simp add: executeRequest_def Let_def cancelRedirectEnv_def quietDispatch_def
        plainSendResult_def)
  then obtain res cx where
    ex: "executeRequest cancelRedirectEnv ?w threeRequests 1 0 None 0 0 (initialTestCtx 1 None)
          (beginRun ?w emptyState) = (Inr (utf16 ''r3'', res, cx), sx)"
    using x by auto
  have "getExecution ?w (snd (executeRequest cancelRedirectEnv ?w threeRequests 1 0 None 0 0
      (initialTestCtx 1 None) (beginRun ?w emptyState))) = None"
    by (simp add: example_defs more_defs)
  then have gx: "getExecution ?w sx = None"
    using ex by simp
  have l3: "length threeRequests = 3"
    by (simp add: threeRequests_def)
  have q1: "?Q (0, Suc 0, utf16 ''r3'', [] @ [res], cx, sx)"
    using reaches.dispatch [OF q0 _ _ _ ex] l3 by (simp add: getExecution_beginRun)
  have jq: "Suc 0 < length threeRequests" using l3 by simp
  have cq: "createResult cancelRedirectEnv = Resolved ()"
    by (simp add: cancelRedirectEnv_def)
  note t2 = cancel_before_request_stops_run [OF q1 jq gx]
  have e2: "length (rResponsesInfo (lastCreated (snd
      (runCollectionAction cancelRedirectEnv ?w threeRequests 1 0 None emptyState)))) = 1"
    by (simp add: example_defs more_defs run_requests.simps run_iterations.simps
        createCalls_append)
  have "fst (runCollectionAction cancelLastEnv ?w twoRequests 2 0 None emptyState) =
      (case createResult cancelLastEnv of
         Resolved x \<Rightarrow> Returned (Redirect (Some Cancelled))
       | Rejected m \<Rightarrow> Thrown (StoreRejected m))"
    using t1 by blast
  then have a1: "fst (runCollectionAction cancelLastEnv ?w twoRequests 2 0 None emptyState) =
      Returned (Redirect (Some Cancelled))"
    using c by simp
  have "length (rIterationResults (lastCreated (snd
      (runCollectionAction cancelLastEnv ?w twoRequests 2 0 None emptyState)))) = Suc 0"
    using t1 by blast
  then have a2: "length (rIterationResults (lastCreated (snd
      (runCollectionAction cancelLastEnv ?w twoRequests 2 0 None emptyState)))) = 1"
    by simp
  have "fst (runCollectionAction cancelRedirectEnv ?w threeRequests 1 0 None emptyState) =
      (case createResult cancelRedirectEnv of
         Resolved x \<Rightarrow> Returned (Redirect (Some Cancelled))
       | Rejected m \<Rightarrow> Thrown (StoreRejected m))"
    using t2 by blast
  then have b1: "fst (runCollectionAction cancelRedirectEnv ?w threeRequests 1 0 None emptyState) =
      Returned (Redirect (Some Cancelled))"
    using cq by simp
  have "length (rIterationResults (lastCreated (snd
      (runCollectionAction cancelRedirectEnv ?w threeRequests 1 0 None emptyState)))) = 0"
    using t2 by blast
  then have b2: "rIterationResults (lastCreated (snd
      (runCollectionAction cancelRedirectEnv ?w threeRequests 1 0 None emptyState))) = []"
    by simp
  show ?thesis
    by (intro conjI a1 a2 e1 b1 b2 e2)
qed

text \<open>
  C3 as stated fails for the results of the iteration in progress: the local
  \<open>iterationResults\<close> of the inner loop is appended to \<open>testCtx\<close> only after the loop, so
  a throw leaves it behind. With two requests and a cancel during the first, the first
  request has run (it is in \<open>responsesInfo\<close>) and the persisted \<open>iterationResults\<close> is
  empty.
\<close>

theorem cancelled_iteration_results_not_persisted:
  "fst (runCollectionAction cancelEnv exampleWorkspace twoRequests 1 0 None emptyState) =
     Returned (Redirect (Some Cancelled)) \<and>
   map originalRequestId (rResponsesInfo (last (store (snd
     (runCollectionAction cancelEnv exampleWorkspace twoRequests 1 0 None emptyState))))) =
     [utf16 ''r1''] \<and>
   rIterationResults (last (store (snd
     (runCollectionAction cancelEnv exampleWorkspace twoRequests 1 0 None emptyState)))) = []"
  by (simp add: example_defs run_requests.simps run_iterations.simps)







text \<open>
  C6. When the pending redirect target is not the id of the candidate at index \<open>j\<close>, the
  candidate matches exactly when its trimmed name equals the trimmed target and no later
  index of the whole request list has a trimmed name equal to the trimmed target. For the
  names A, B, A and the target A this is index 2 and not index 0.
\<close>

theorem redirect_by_name_matches_last:
  assumes "j < length requests" and "id' (requests ! j) \<noteq> t"
  shows "redirectMatches requests j t \<longleftrightarrow>
           trim (name (requests ! j)) = trim t \<and>
           (\<forall>j'. j < j' \<and> j' < length requests \<longrightarrow> trim (name (requests ! j')) \<noteq> trim t)"
proof -
  have "int j = findLastIndex (\<lambda>req. trim (name req) = trim t) requests \<longleftrightarrow>
        findLastIndexFrom (\<lambda>req. trim (name req) = trim t) requests (length requests) = int j"
    by (auto simp: findLastIndex_def)
  then show ?thesis
    using assms
    by (auto simp: redirectMatches_def Let_def findLastIndexFrom_iff)
qed

theorem redirect_by_name_matches_last_witness:
  "2 < length requestsABA \<and> id' (requestsABA ! 2) \<noteq> utf16 ''A'' \<and>
   0 < length requestsABA \<and> id' (requestsABA ! 0) \<noteq> utf16 ''A'' \<and>
   redirectMatches requestsABA 2 (utf16 ''A'') \<and>
   \<not> redirectMatches requestsABA 0 (utf16 ''A'')"
proof -
  have a: "2 < length requestsABA" "id' (requestsABA ! 2) \<noteq> utf16 ''A''"
    by (simp_all add: requestsABA_def request_def utf16_def)
  have b: "0 < length requestsABA" "id' (requestsABA ! 0) \<noteq> utf16 ''A''"
    by (simp_all add: requestsABA_def request_def utf16_def)
  have n2: "name (requestsABA ! 2) = utf16 ''A''"
    by (simp add: requestsABA_def request_def)
  have n0: "name (requestsABA ! 0) = utf16 ''A''"
    by (simp add: requestsABA_def request_def)
  have l: "length requestsABA = 3"
    by (simp add: requestsABA_def)
  have m2: "redirectMatches requestsABA 2 (utf16 ''A'')"
    using redirect_by_name_matches_last [OF a] n2 l by (simp add: trim_A) arith
  have "\<not> (\<forall>j'. 0 < j' \<and> j' < length requestsABA \<longrightarrow>
             trim (name (requestsABA ! j')) \<noteq> trim (utf16 ''A''))"
    using n2 l by (auto intro: exI [of _ 2])
  then have m0: "\<not> redirectMatches requestsABA 0 (utf16 ''A'')"
    using redirect_by_name_matches_last [OF b] by simp
  show ?thesis using a b m2 m0 by simp
qed



text \<open>
  C8. \<open>getCurIterationUserUploadData\<close> returns nothing when there is no upload data
  (no array, or an empty one). For a non-empty list of length \<open>N\<close> it returns the entry
  at \<open>i\<close> when \<open>i < N\<close> and the entry at \<open>(i + 1) mod N\<close> otherwise, an index that
  is always inside the list. With two entries and iteration index 2 this is entry 1.
\<close>

theorem upload_data_binding:
  "getCurIterationUserUploadData (None :: 'a list option) i = None \<and>
   getCurIterationUserUploadData (Some ([] :: 'a list)) i = None \<and>
   ((envs :: 'a list) \<noteq> [] \<longrightarrow>
      getCurIterationUserUploadData (Some envs) i =
        Some (if i < length envs then envs ! i else envs ! ((i + 1) mod length envs)) \<and>
      (i + 1) mod length envs < length envs)"
  by (auto simp: getCurIterationUserUploadData_def Let_def)

theorem upload_data_binding_witness:
  "[utf16 ''first'', utf16 ''second''] \<noteq> [] \<and>
   getCurIterationUserUploadData (Some [utf16 ''first'', utf16 ''second'']) 2 =
     Some (utf16 ''second'')"
proof -
  have m: "(3::nat) mod Suc (Suc 0) = Suc 0" by arith
  show ?thesis
    using upload_data_binding [of 2 "[utf16 ''first'', utf16 ''second'']"] by (simp add: m)
qed




text \<open>
  C10. \<open>cancelExecution\<close> called while the registry value of the run is the empty
  string returns the state as it was: the entry stays, no step is renamed to Done and no
  request cancellation is forwarded. This is the state right after \<open>startExecution\<close>.
  The call changes the state only when the stored value is a non-empty request id.
\<close>

theorem cancel_on_empty_value_is_noop:
  "(getExecution w s = Some [] \<longrightarrow> cancelExecution w s = s) \<and>
   cancelExecution w (startExecution w s) = startExecution w s \<and>
   (cancelExecution w s \<noteq> s \<longleftrightarrow> (\<exists>r. getExecution w s = Some r \<and> r \<noteq> []))"
proof -
  have "trace (stopExecution w (emit es s)) = trace s @ es" for es
    by (simp add: stopExecution_def emit_def)
  then have "stopExecution w (emit [a, b, c] s) \<noteq> s" for a b c
    by (metis append_self_conv list.distinct(1))
  then show ?thesis
    by (auto simp: cancelExecution_def getExecution_def startExecution_def split: option.splits)
qed

theorem cancel_on_empty_value_is_noop_witness:
  "getExecution exampleWorkspace (startExecution exampleWorkspace emptyState) = Some [] \<and>
   cancelExecution exampleWorkspace (startExecution exampleWorkspace emptyState) =
     startExecution exampleWorkspace emptyState \<and>
   trace (cancelExecution exampleWorkspace (startExecution exampleWorkspace emptyState)) = []"
proof -
  have g: "getExecution exampleWorkspace (startExecution exampleWorkspace emptyState) = Some []"
    by (simp add: getExecution_def startExecution_def)
  have t: "trace (startExecution exampleWorkspace emptyState) = []"
    by (simp add: startExecution_def emptyState_def)
  show ?thesis
    using cancel_on_empty_value_is_noop
      [of exampleWorkspace "startExecution exampleWorkspace emptyState"] g t
    by simp
qed

end
